theory Spec2Isabelle
  imports Main
begin

section \<open>Data model of the comments contribution\<close>

text \<open>
  The controller \<^verbatim>\<open>CommentsContribution\<close> of
  \<^verbatim>\<open>packages/plugin-ext/src/main/browser/comments/comments-contribution.ts\<close>
  keeps a list of zone widgets, a list of per-owner comment infos, a cache of pending
  comment text, a queue of postponed insert requests and an in-progress flag.
  Line numbers are JavaScript numbers that only ever hold integers here: \<open>int\<close>.
  Resource identifiers are compared through \<^verbatim>\<open>toString()\<close>: \<open>string\<close>.
\<close>

record Range =
  startLineNumber :: int
  endLineNumber :: int
  startColumn :: int
  endColumn :: int

text \<open>
  Modelled from the spec: the declaration of \<^verbatim>\<open>CommentThread\<close>
  (\<^verbatim>\<open>common/plugin-api-rpc-model\<close>) is not part of the sources at hand. The fields
  are the ones the controller reads: \<^verbatim>\<open>threadId\<close> (a string, the empty string
  standing for a thread that is not persisted yet), \<^verbatim>\<open>resource\<close> (tested for
  truthiness before use, hence optional) and \<^verbatim>\<open>range\<close>.
\<close>

record CommentThread =
  threadId :: string
  resource :: "string option"
  range :: Range

text \<open>\<^verbatim>\<open>ICommentInfo\<close>: the fields \<^verbatim>\<open>owner\<close> and \<^verbatim>\<open>threads\<close> are the ones read.\<close>

record ICommentInfo =
  owner :: string
  threads :: "CommentThread list"

text \<open>
  A \<^verbatim>\<open>CommentThreadWidget\<close> as the controller builds it: the constructor receives
  the owner and the thread (and collaborators that carry no data of the controller),
  \<^verbatim>\<open>display\<close> receives \<^verbatim>\<open>afterLineNumber\<close> and \<^verbatim>\<open>heightInLines\<close>.
\<close>

record CommentThreadWidget =
  widget_owner :: string
  commentThread :: CommentThread
  afterLineNumber :: int
  heightInLines :: int

text \<open>
  The editor held by the current editor widget is a \<^verbatim>\<open>MonacoDiffEditor\<close>, whose
  modified sub-editor has a model (with a URI) or none, or it is some other editor.
\<close>

datatype Editor = MonacoDiffEditor (modifiedModel: "string option") | OtherEditor

text \<open>The mouse event is only tested for presence by the code modelled here.\<close>

datatype EditorMouseEvent = MouseDown (positionLine: int)

text \<open>
  The collaborators the controller reads from, none of them defined in this file of the
  repository, are parameters: the editor manager's current editor, the range decorator's
  \<^verbatim>\<open>getMatchedCommentAction\<close> (reduced to the owner ids of the actions it returns), the
  comment service's \<^verbatim>\<open>getCommentController\<close> (reduced to the provider's id) and
  the widget's \<^verbatim>\<open>getGlyphPosition\<close>.
\<close>

record env =
  currentEditor :: "Editor option"
  getMatchedCommentAction :: "int \<Rightarrow> string list"
  getCommentController :: "string \<Rightarrow> string option"
  getGlyphPosition :: "CommentThreadWidget \<Rightarrow> int"

text \<open>Calls made to the comment service.\<close>

datatype backendCall =
  GetComments string
| CreateCommentThreadTemplate string string Range

text \<open>
  Control points of the insertion serializer, recorded in order: a request passes the
  gate and sets the flag (\<open>Taken\<close>), a request is pushed on the queue (\<open>Enqueued\<close>),
  \<^verbatim>\<open>addCommentAtLine\<close> is entered (\<open>Workflow\<close>), \<^verbatim>\<open>processNextThreadToAdd\<close>
  is entered (\<open>Released\<close>).
\<close>

datatype serializerEvent = Taken int | Enqueued int | Workflow int | Released

text \<open>
  The private fields of the class, followed by the effects on its collaborators: the
  calls to the comment service, the widgets disposed and updated, the context key
  \<^verbatim>\<open>commentController\<close>, the widgets hooked to the editor's disposal, the resources
  whose \<^verbatim>\<open>getComments\<close> promise \<^verbatim>\<open>beginCompute\<close> is suspended on, and the record
  of control points.
\<close>

record state =
  addInProgress :: bool
  commentWidgets :: "CommentThreadWidget list"
  commentInfos :: "ICommentInfo list"
  pendingCommentCache :: "string \<rightharpoonup> (string \<rightharpoonup> string)"
  emptyThreadsToAddQueue :: "(int \<times> EditorMouseEvent option) list"
  computePromise :: "nat option"
  backendCalls :: "backendCall list"
  disposed :: "CommentThreadWidget list"
  updated :: "CommentThreadWidget list"
  commentControllerKey :: "string option"
  disposeHooks :: "CommentThreadWidget list"
  pendingFetches :: "string list"
  trace :: "serializerEvent list"

text \<open>
  The constructor: empty widget list, cache and infos; the queue is initialised empty;
  \<^verbatim>\<open>_addInProgress\<close> and \<^verbatim>\<open>_computePromise\<close> are left undefined (falsy).
\<close>

definition initial :: state where
  "initial = \<lparr> addInProgress = False, commentWidgets = [], commentInfos = [],
     pendingCommentCache = Map.empty, emptyThreadsToAddQueue = [], computePromise = None,
     backendCalls = [], disposed = [], updated = [], commentControllerKey = None,
     disposeHooks = [], pendingFetches = [], trace = [] \<rparr>"

section \<open>The editor getter\<close>

text \<open>
  \<^verbatim>\<open>get editor()\<close>: the modified sub-editor of the current editor when that is a diff
  editor, undefined otherwise. The sub-editor is represented by its model.
\<close>

definition editor :: "env \<Rightarrow> string option option" where
  "editor E =
     (case currentEditor E of
        None \<Rightarrow> None
      | Some OtherEditor \<Rightarrow> None
      | Some (MonacoDiffEditor m) \<Rightarrow> Some m)"

text \<open>
  \<^verbatim>\<open>this.editor && this.editor.getModel()\<close> followed by
  \<^verbatim>\<open>this.editor && editorModel && editorModel.uri\<close>.
\<close>

definition editorURI :: "env \<Rightarrow> string option" where
  "editorURI E = (case editor E of None \<Rightarrow> None | Some m \<Rightarrow> m)"

section \<open>The insertion serializer\<close>

function addOrToggleCommentAtLine :: "env \<Rightarrow> int \<Rightarrow> EditorMouseEvent option \<Rightarrow> state \<Rightarrow> state"
  and processNextThreadToAdd :: "env \<Rightarrow> state \<Rightarrow> state"
  and addCommentAtLine :: "env \<Rightarrow> int \<Rightarrow> EditorMouseEvent option \<Rightarrow> state \<Rightarrow> state"
  and addCommentAtLine2 :: "env \<Rightarrow> int \<Rightarrow> string \<Rightarrow> state \<Rightarrow> state"
where
  "addOrToggleCommentAtLine E lineNumber e s =
     (if \<not> addInProgress s then
        (if filter (\<lambda>widget. getGlyphPosition E widget = lineNumber) (commentWidgets s) \<noteq> []
         then processNextThreadToAdd E
                (s\<lparr>addInProgress := True, trace := trace s @ [Taken lineNumber]\<rparr>)
         else addCommentAtLine E lineNumber e
                (s\<lparr>addInProgress := True, trace := trace s @ [Taken lineNumber]\<rparr>))
      else s\<lparr>emptyThreadsToAddQueue := emptyThreadsToAddQueue s @ [(lineNumber, e)],
             trace := trace s @ [Enqueued lineNumber]\<rparr>)"
| "processNextThreadToAdd E s =
     (case emptyThreadsToAddQueue s of
        [] \<Rightarrow> s\<lparr>addInProgress := False, trace := trace s @ [Released]\<rparr>
      | info # rest \<Rightarrow>
          addOrToggleCommentAtLine E (fst info) (snd info)
            (s\<lparr>addInProgress := False, emptyThreadsToAddQueue := rest,
               trace := trace s @ [Released]\<rparr>))"
| "addCommentAtLine E lineNumber e s =
     (if currentEditor E = None then s\<lparr>trace := trace s @ [Workflow lineNumber]\<rparr>
      else if getMatchedCommentAction E lineNumber = []
      then s\<lparr>trace := trace s @ [Workflow lineNumber]\<rparr>
      else if length (getMatchedCommentAction E lineNumber) > 1
      then (if e \<noteq> None then s\<lparr>trace := trace s @ [Workflow lineNumber]\<rparr>
            else s\<lparr>trace := trace s @ [Workflow lineNumber]\<rparr>)
      else addCommentAtLine2 E lineNumber (hd (getMatchedCommentAction E lineNumber))
             (s\<lparr>trace := trace s @ [Workflow lineNumber]\<rparr>))"
| "addCommentAtLine2 E lineNumber ownerId s =
     (case editorURI E of
        None \<Rightarrow> s
      | Some uri \<Rightarrow>
          processNextThreadToAdd E
            (s\<lparr>backendCalls := backendCalls s @
                 [CreateCommentThreadTemplate ownerId uri
                    \<lparr>startLineNumber = lineNumber, endLineNumber = lineNumber,
                     startColumn = 1, endColumn = 1\<rparr>]\<rparr>))"
  by pat_completeness auto
termination
  by (relation "measure (\<lambda>x. case x of
          Inl (Inl (E, l, e, s)) \<Rightarrow> 4 * length (emptyThreadsToAddQueue s) + 3
        | Inl (Inr (E, s)) \<Rightarrow> 4 * length (emptyThreadsToAddQueue s)
        | Inr (Inl (E, l, e, s)) \<Rightarrow> 4 * length (emptyThreadsToAddQueue s) + 2
        | Inr (Inr (E, l, ownerId, s)) \<Rightarrow> 4 * length (emptyThreadsToAddQueue s) + 1)")
     auto

section \<open>Fetching the comment infos\<close>

text \<open>
  \<^verbatim>\<open>setComments\<close> replaces the comment infos, unless there is no editor.
\<close>

definition setComments :: "env \<Rightarrow> ICommentInfo list \<Rightarrow> state \<Rightarrow> state" where
  "setComments E infos s =
     (case editor E of None \<Rightarrow> s | Some ed \<Rightarrow> s\<lparr>commentInfos := infos\<rparr>)"

text \<open>
  \<^verbatim>\<open>beginCompute\<close> up to its \<^verbatim>\<open>await\<close>: with a resource, \<^verbatim>\<open>getComments\<close> is
  called and the function is suspended on the promise. It assigns no field.
\<close>

definition beginCompute :: "env \<Rightarrow> state \<Rightarrow> state" where
  "beginCompute E s =
     (case editorURI E of
        None \<Rightarrow> s
      | Some uri \<Rightarrow> s\<lparr>backendCalls := backendCalls s @ [GetComments uri],
                       pendingFetches := pendingFetches s @ [uri]\<rparr>)"

text \<open>
  The continuation of \<^verbatim>\<open>beginCompute\<close> once the promise for \<open>uri\<close> is fulfilled with
  \<open>comments\<close>: the entries that are not null are handed to \<^verbatim>\<open>setComments\<close>, which
  reads the editor current at that moment.
\<close>

definition beginCompute_resume :: "env \<Rightarrow> string \<Rightarrow> ICommentInfo option list \<Rightarrow> state \<Rightarrow> state" where
  "beginCompute_resume E uri comments s =
     setComments E (List.map_filter (\<lambda>c. c) comments)
       (s\<lparr>pendingFetches := remove1 uri (pendingFetches s)\<rparr>)"

section \<open>The thread-delta reconciler\<close>

text \<open>The event of \<^verbatim>\<open>onDidUpdateCommentThreads\<close>.\<close>

record CommentThreadChangedEvent =
  ev_owner :: string
  added :: "CommentThread list"
  removed :: "CommentThread list"
  changed :: "CommentThread list"

text \<open>
  \<^verbatim>\<open>Array.prototype.indexOf\<close> (\<open>-1\<close> when absent) and \<^verbatim>\<open>splice(index, 1)\<close>
  (a negative index counts from the end, an index beyond the end removes nothing).
  Widgets are objects compared by identity in the source and records compared by value
  here; the widget looked up is the first one that satisfies the filter, and any widget
  equal to it by value satisfies the filter too, so both readings give the same index.
\<close>

fun indexOf :: "'a \<Rightarrow> 'a list \<Rightarrow> int" where
  "indexOf x [] = -1"
| "indexOf x (y # ys) =
     (if x = y then 0 else if indexOf x ys < 0 then -1 else indexOf x ys + 1)"

definition splice1 :: "int \<Rightarrow> 'a list \<Rightarrow> 'a list" where
  "splice1 i xs =
     (if i < 0
      then take (nat (max (int (length xs) + i) 0)) xs
             @ drop (nat (max (int (length xs) + i) 0) + 1) xs
      else take (nat i) xs @ drop (nat i + 1) xs)"

text \<open>
  \<^verbatim>\<open>thread.resource && thread.resource.toString() === editorURI.toString()\<close>.
\<close>

definition onResource :: "string \<Rightarrow> CommentThread \<Rightarrow> bool" where
  "onResource uri thread =
     (case resource thread of None \<Rightarrow> False | Some r \<Rightarrow> r \<noteq> [] \<and> r = uri)"

text \<open>The body of \<^verbatim>\<open>removed.forEach\<close>.\<close>

definition matchesRemoved :: "string \<Rightarrow> CommentThread \<Rightarrow> CommentThreadWidget \<Rightarrow> bool" where
  "matchesRemoved eOwner thread zoneWidget =
     (widget_owner zoneWidget = eOwner
      \<and> threadId (commentThread zoneWidget) = threadId thread
      \<and> threadId (commentThread zoneWidget) \<noteq> [])"

definition removeThread :: "string \<Rightarrow> CommentThread \<Rightarrow> state \<Rightarrow> state" where
  "removeThread eOwner thread s =
     (case filter (matchesRemoved eOwner thread) (commentWidgets s) of
        [] \<Rightarrow> s
      | matchedZone # others \<Rightarrow>
          s\<lparr>commentWidgets :=
               splice1 (indexOf matchedZone (commentWidgets s)) (commentWidgets s),
            disposed := disposed s @ [matchedZone]\<rparr>)"

text \<open>The body of \<^verbatim>\<open>changed.forEach\<close>.\<close>

definition matchesChanged :: "string \<Rightarrow> CommentThread \<Rightarrow> CommentThreadWidget \<Rightarrow> bool" where
  "matchesChanged eOwner thread zoneWidget =
     (widget_owner zoneWidget = eOwner
      \<and> threadId (commentThread zoneWidget) = threadId thread)"

definition changeThread :: "string \<Rightarrow> CommentThread \<Rightarrow> state \<Rightarrow> state" where
  "changeThread eOwner thread s =
     (case filter (matchesChanged eOwner thread) (commentWidgets s) of
        [] \<Rightarrow> s
      | matchedZone # others \<Rightarrow> s\<lparr>updated := updated s @ [matchedZone]\<rparr>)"

text \<open>
  \<^verbatim>\<open>displayCommentThread\<close>. The parameter \<^verbatim>\<open>pendingComment\<close> is not used by the
  body: the widget is constructed from the editor, the owner, the thread and
  collaborators.
\<close>

definition displayCommentThread ::
  "env \<Rightarrow> string \<Rightarrow> CommentThread \<Rightarrow> string option \<Rightarrow> state \<Rightarrow> state" where
  "displayCommentThread E eOwner thread pendingComment s =
     (case editor E of
        None \<Rightarrow> s
      | Some ed \<Rightarrow>
          s\<lparr>commentControllerKey :=
               (case getCommentController E eOwner of
                  None \<Rightarrow> commentControllerKey s
                | Some providerId \<Rightarrow> Some providerId),
            disposeHooks :=
               (if currentEditor E \<noteq> None
                then disposeHooks s @
                       [\<lparr>widget_owner = eOwner, commentThread = thread,
                         afterLineNumber = startLineNumber (range thread),
                         heightInLines = 5\<rparr>]
                else disposeHooks s),
            commentWidgets := commentWidgets s @
               [\<lparr>widget_owner = eOwner, commentThread = thread,
                 afterLineNumber = startLineNumber (range thread),
                 heightInLines = 5\<rparr>]\<rparr>)"

text \<open>
  \<^verbatim>\<open>this._commentInfos.filter(info => info.owner === e.owner)[0].threads.push(thread)\<close>:
  the first info of that owner gets the thread appended; without such an info the
  element read is undefined and the access to its \<^verbatim>\<open>threads\<close> throws (\<open>None\<close>).
\<close>

fun pushThread :: "string \<Rightarrow> CommentThread \<Rightarrow> ICommentInfo list \<Rightarrow> ICommentInfo list option" where
  "pushThread eOwner thread [] = None"
| "pushThread eOwner thread (info # infos) =
     (if owner info = eOwner then Some (info\<lparr>threads := threads info @ [thread]\<rparr> # infos)
      else map_option ((#) info) (pushThread eOwner thread infos))"

text \<open>
  How a handler ends: it returns, it throws (the state it had reached stays), or it is
  suspended on the compute promise with the resource it had read.
\<close>

datatype outcome = Returned state | Threw state | Suspended nat string state

fun stateOf :: "outcome \<Rightarrow> state" where
  "stateOf (Returned s) = s"
| "stateOf (Threw s) = s"
| "stateOf (Suspended p uri s) = s"

text \<open>The body of \<^verbatim>\<open>added.forEach\<close>, and the loop, which an exception leaves.\<close>

definition addThread :: "env \<Rightarrow> string \<Rightarrow> CommentThread \<Rightarrow> state \<Rightarrow> outcome" where
  "addThread E eOwner thread s =
     (case pushThread eOwner thread
             (commentInfos (displayCommentThread E eOwner thread
                (case pendingCommentCache s eOwner of
                   None \<Rightarrow> None
                 | Some texts \<Rightarrow> texts (threadId thread)) s)) of
        None \<Rightarrow>
          Threw (displayCommentThread E eOwner thread
                   (case pendingCommentCache s eOwner of
                      None \<Rightarrow> None
                    | Some texts \<Rightarrow> texts (threadId thread)) s)
      | Some infos \<Rightarrow>
          Returned ((displayCommentThread E eOwner thread
                      (case pendingCommentCache s eOwner of
                         None \<Rightarrow> None
                       | Some texts \<Rightarrow> texts (threadId thread)) s)
                    \<lparr>commentInfos := infos\<rparr>))"

fun addedForEach :: "env \<Rightarrow> string \<Rightarrow> CommentThread list \<Rightarrow> state \<Rightarrow> outcome" where
  "addedForEach E eOwner [] s = Returned s"
| "addedForEach E eOwner (thread # rest) s =
     (case addThread E eOwner thread s of
        Returned s' \<Rightarrow> addedForEach E eOwner rest s'
      | Threw s' \<Rightarrow> Threw s'
      | Suspended p uri s' \<Rightarrow> Suspended p uri s')"

text \<open>
  The handler of \<^verbatim>\<open>onDidUpdateCommentThreads\<close> from the point after the
  \<^verbatim>\<open>await\<close>, with the resource \<open>uri\<close> read before it.
\<close>

definition applyThreadDelta :: "env \<Rightarrow> string \<Rightarrow> CommentThreadChangedEvent \<Rightarrow> state \<Rightarrow> outcome" where
  "applyThreadDelta E uri e s =
     (if filter (\<lambda>info. owner info = ev_owner e) (commentInfos s) = [] then Returned s
      else addedForEach E (ev_owner e) (filter (onResource uri) (added e))
             (fold (changeThread (ev_owner e)) (filter (onResource uri) (changed e))
                (fold (removeThread (ev_owner e)) (filter (onResource uri) (removed e)) s)))"

text \<open>
  The whole handler: without a resource it returns; with a compute promise it is
  suspended on it; otherwise it goes on at once.
\<close>

definition onDidUpdateCommentThreads :: "env \<Rightarrow> CommentThreadChangedEvent \<Rightarrow> state \<Rightarrow> outcome" where
  "onDidUpdateCommentThreads E e s =
     (case editorURI E of
        None \<Rightarrow> Returned s
      | Some uri \<Rightarrow>
          (case computePromise s of
             Some p \<Rightarrow> Suspended p uri s
           | None \<Rightarrow> applyThreadDelta E uri e s))"

section \<open>Runs of the controller\<close>

text \<open>
  What can happen to a controller, each with the collaborators as they are at that
  moment: a delta batch arrives, an insert is requested, a diff editor is created
  (\<^verbatim>\<open>beginCompute\<close> starts), a pending \<^verbatim>\<open>getComments\<close> is fulfilled.
  Every diff editor created subscribes the handler once more, so that a batch is then
  handled once for each of them: that is the same batch arriving several times in a row.
  Left out are the parts of the class that touch none of its fields: the updates of the
  range decorator in \<^verbatim>\<open>onCreated\<close>, and \<^verbatim>\<open>onEditorMouseDown\<close>, which only
  decides whether \<^verbatim>\<open>addOrToggleCommentAtLine\<close> is called; and the handler of
  \<^verbatim>\<open>onDidSetResourceCommentInfos\<close>, which calls \<^verbatim>\<open>setComments\<close> as the
  continuation of \<^verbatim>\<open>beginCompute\<close> does.
\<close>

datatype action =
  UpdateCommentThreads CommentThreadChangedEvent
| AddOrToggle int "EditorMouseEvent option"
| BeginCompute
| CommentsFetched string "ICommentInfo option list"

fun step :: "env \<Rightarrow> action \<Rightarrow> state \<Rightarrow> state" where
  "step E (UpdateCommentThreads e) s = stateOf (onDidUpdateCommentThreads E e s)"
| "step E (AddOrToggle lineNumber e) s = addOrToggleCommentAtLine E lineNumber e s"
| "step E BeginCompute s = beginCompute E s"
| "step E (CommentsFetched uri comments) s = beginCompute_resume E uri comments s"

fun run :: "(env \<times> action) list \<Rightarrow> state \<Rightarrow> state" where
  "run [] s = s"
| "run ((E, a) # rest) s = run rest (step E a s)"

text \<open>
  One event of the comment service reaches every subscribed handler, one after the
  other. \<^verbatim>\<open>onCreated\<close> subscribes the handler for each diff editor created, until
  that editor is disposed; the handler itself looks at the current editor and at the
  widget list of the controller. With \<open>n\<close> diff editors created and not disposed, the
  handler runs \<open>n\<close> times on the event.
\<close>

fun deliver :: "nat \<Rightarrow> env \<Rightarrow> CommentThreadChangedEvent \<Rightarrow> state \<Rightarrow> state" where
  "deliver 0 E e s = s"
| "deliver (Suc n) E e s = deliver n E e (stateOf (onDidUpdateCommentThreads E e s))"

section \<open>Notions used to state the properties\<close>

subsection \<open>The serializer seen as a lock\<close>

text \<open>
  The lock protocol the record of control points is checked against: a request is taken
  only while the lock is idle; the workflow that starts is the one of the request taken;
  requests are queued only while the lock is held; a release makes the lock idle.
\<close>

datatype lockState = Idle | Held int | Running int

fun lockStep :: "lockState \<Rightarrow> serializerEvent \<Rightarrow> lockState option" where
  "lockStep Idle (Taken l) = Some (Held l)"
| "lockStep (Held l) (Workflow l') = (if l' = l then Some (Running l) else None)"
| "lockStep (Held l) Released = Some Idle"
| "lockStep (Running l) Released = Some Idle"
| "lockStep (Held l) (Enqueued l') = Some (Held l)"
| "lockStep (Running l) (Enqueued l') = Some (Running l)"
| "lockStep st ev = None"

fun lockRun :: "lockState \<Rightarrow> serializerEvent list \<Rightarrow> lockState option" where
  "lockRun st [] = Some st"
| "lockRun st (ev # evs) =
     (case lockStep st ev of None \<Rightarrow> None | Some st' \<Rightarrow> lockRun st' evs)"

fun takenLines :: "serializerEvent list \<Rightarrow> int list" where
  "takenLines [] = []"
| "takenLines (Taken l # evs) = l # takenLines evs"
| "takenLines (ev # evs) = takenLines evs"

text \<open>
  The lock state a record of control points leads to, the agreement of the in-progress
  flag with it, and what a call of the serializer achieves on a queue \<open>q\<close> after
  the lines \<open>tk\<close> were taken: it takes some more requests from the front of \<open>q\<close>, in
  order, and leaves the others queued.
\<close>

definition lockOf :: "state \<Rightarrow> lockState option" where
  "lockOf s = lockRun Idle (trace s)"

definition serial :: "state \<Rightarrow> bool" where
  "serial s = (case lockOf s of None \<Rightarrow> False
               | Some st \<Rightarrow> addInProgress s = (st \<noteq> Idle))"

definition served :: "(int \<times> EditorMouseEvent option) list \<Rightarrow> int list \<Rightarrow> state \<Rightarrow> bool" where
  "served q tk s' =
     (serial s' \<and> (\<not> addInProgress s' \<longrightarrow> emptyThreadsToAddQueue s' = []) \<and>
      (\<exists>n \<le> length q. emptyThreadsToAddQueue s' = drop n q \<and>
         takenLines (trace s') = tk @ map fst (take n q)))"

text \<open>
  A request releases the lock when it is taken on an occupied line, or when its line has
  exactly one comment provider and there are a current editor and a resource; every
  other request keeps it. \<open>released\<close> counts the requests at the front of a queue that
  release the lock. A state is drained from another when the requests taken since are
  those releasing ones and the one after them, in the order of the queue, the queue
  holds the rest, and the flag is set exactly when there was one after them. A state is
  stuck from another when nothing was taken and queue and flag are the same.
\<close>

definition releasing :: "env \<Rightarrow> CommentThreadWidget list \<Rightarrow> int \<Rightarrow> bool" where
  "releasing E ws lineNumber =
     (filter (\<lambda>widget. getGlyphPosition E widget = lineNumber) ws \<noteq> []
      \<or> (currentEditor E \<noteq> None \<and> length (getMatchedCommentAction E lineNumber) = 1
          \<and> editorURI E \<noteq> None))"

definition released :: "env \<Rightarrow> CommentThreadWidget list \<Rightarrow> (int \<times> EditorMouseEvent option) list \<Rightarrow> nat" where
  "released E ws q = length (takeWhile (\<lambda>r. releasing E ws (fst r)) q)"

definition drainedFrom :: "env \<Rightarrow> state \<Rightarrow> state \<Rightarrow> bool" where
  "drainedFrom E s s' =
     (takenLines (trace s') = takenLines (trace s)
         @ map fst (take (Suc (released E (commentWidgets s) (emptyThreadsToAddQueue s)))
                      (emptyThreadsToAddQueue s))
      \<and> emptyThreadsToAddQueue s'
          = drop (Suc (released E (commentWidgets s) (emptyThreadsToAddQueue s)))
              (emptyThreadsToAddQueue s)
      \<and> addInProgress s'
          = (released E (commentWidgets s) (emptyThreadsToAddQueue s)
               < length (emptyThreadsToAddQueue s)))"

definition stuckFrom :: "state \<Rightarrow> state \<Rightarrow> bool" where
  "stuckFrom s s' =
     (takenLines (trace s') = takenLines (trace s)
      \<and> emptyThreadsToAddQueue s' = emptyThreadsToAddQueue s
      \<and> addInProgress s' = addInProgress s)"

text \<open>A sequence of insert requests issued one after the other.\<close>

definition requests :: "env \<Rightarrow> (int \<times> EditorMouseEvent option) list \<Rightarrow> state \<Rightarrow> state" where
  "requests E reqs s = fold (\<lambda>r. addOrToggleCommentAtLine E (fst r) (snd r)) reqs s"

text \<open>
  A line is occupied when some widget has its glyph there: the test of
  \<^verbatim>\<open>addOrToggleCommentAtLine\<close>. \<open>createsAt\<close> picks the thread templates created
  at a line among the calls to the comment service.
\<close>

definition occupied :: "env \<Rightarrow> int \<Rightarrow> state \<Rightarrow> bool" where
  "occupied E lineNumber s =
     (filter (\<lambda>widget. getGlyphPosition E widget = lineNumber) (commentWidgets s) \<noteq> [])"

fun createsAt :: "int \<Rightarrow> backendCall \<Rightarrow> bool" where
  "createsAt lineNumber (CreateCommentThreadTemplate ownerId uri r) = (startLineNumber r = lineNumber)"
| "createsAt lineNumber (GetComments uri) = False"

subsection \<open>Widgets of a thread\<close>

text \<open>
  The widgets of an owner and a thread id, the widget \<^verbatim>\<open>displayCommentThread\<close>
  builds, and the test of the handler that an owner has a comment info.
\<close>

definition widgetsFor :: "string \<Rightarrow> string \<Rightarrow> CommentThreadWidget list \<Rightarrow> CommentThreadWidget list" where
  "widgetsFor eOwner tid ws =
     filter (\<lambda>w. widget_owner w = eOwner \<and> threadId (commentThread w) = tid) ws"

definition zoneWidgetFor :: "string \<Rightarrow> CommentThread \<Rightarrow> CommentThreadWidget" where
  "zoneWidgetFor eOwner thread =
     \<lparr>widget_owner = eOwner, commentThread = thread,
      afterLineNumber = startLineNumber (range thread), heightInLines = 5\<rparr>"

definition knownOwner :: "string \<Rightarrow> state \<Rightarrow> bool" where
  "knownOwner eOwner s = (filter (\<lambda>info. owner info = eOwner) (commentInfos s) \<noteq> [])"


text \<open>
  At most one widget for each owner and thread id, among the thread ids that are not empty.
\<close>

definition widgetKey :: "CommentThreadWidget \<Rightarrow> string \<times> string" where
  "widgetKey w = (widget_owner w, threadId (commentThread w))"

definition uniqueWidgets :: "CommentThreadWidget list \<Rightarrow> bool" where
  "uniqueWidgets ws =
     distinct (map widgetKey (filter (\<lambda>w. threadId (commentThread w) \<noteq> []) ws))"

subsection \<open>Concrete collaborators, threads and events\<close>

definition diffEnv :: env where
  "diffEnv = \<lparr> currentEditor = Some (MonacoDiffEditor (Some ''file:///a.ts'')),
     getMatchedCommentAction =
       (\<lambda>l. if l = 7 then [''o1''] else if l = 9 then [''o1'', ''o2''] else []),
     getCommentController = (\<lambda>ownerId. if ownerId = ''o1'' then Some ''o1'' else None),
     getGlyphPosition = afterLineNumber \<rparr>"

definition noEditorEnv :: env where
  "noEditorEnv = diffEnv\<lparr>currentEditor := None\<rparr>"

definition plainEditorEnv :: env where
  "plainEditorEnv = diffEnv\<lparr>currentEditor := Some OtherEditor\<rparr>"

definition thread_t1 :: CommentThread where
  "thread_t1 = \<lparr> threadId = ''t1'', resource = Some ''file:///a.ts'',
     range = \<lparr>startLineNumber = 3, endLineNumber = 3, startColumn = 1, endColumn = 1\<rparr> \<rparr>"

definition thread_unsaved :: CommentThread where
  "thread_unsaved = thread_t1\<lparr>threadId := []\<rparr>"

definition info_o1 :: ICommentInfo where
  "info_o1 = \<lparr> owner = ''o1'', threads = [] \<rparr>"

definition batch :: "CommentThread list \<Rightarrow> CommentThread list \<Rightarrow> CommentThreadChangedEvent" where
  "batch adds removes = \<lparr> ev_owner = ''o1'', added = adds, removed = removes, changed = [] \<rparr>"

text \<open>
  A diff editor on \<^verbatim>\<open>file:///a.ts\<close> is created and its comment infos arrive: one
  info, of owner \<^verbatim>\<open>o1\<close>, without threads.
\<close>

definition opened :: "(env \<times> action) list" where
  "opened = [(diffEnv, BeginCompute),
             (diffEnv, CommentsFetched ''file:///a.ts'' [Some info_o1, None])]"

text \<open>
  Five requests on a new controller: the first one, on a line without comment provider,
  keeps the lock, and the others are queued.
\<close>

definition stuckOnFive :: state where
  "stuckOnFive = requests diffEnv [(5, None), (7, None), (7, None), (9, None), (7, None)] initial"

section \<open>The insertion serializer: lemmas\<close>

declare addOrToggleCommentAtLine.simps [simp del] processNextThreadToAdd.simps [simp del]
  addCommentAtLine.simps [simp del] addCommentAtLine2.simps [simp del]

lemma lockRun_snoc:
  "lockRun st (evs @ [ev]) = (case lockRun st evs of None \<Rightarrow> None | Some st' \<Rightarrow> lockStep st' ev)"
  by (induction evs arbitrary: st) (auto split: option.splits)

lemma takenLines_append: "takenLines (xs @ ys) = takenLines xs @ takenLines ys"
  by (induction xs rule: takenLines.induct) auto


lemma servedI:
  "serial s' \<Longrightarrow> (\<not> addInProgress s' \<Longrightarrow> emptyThreadsToAddQueue s' = []) \<Longrightarrow> n \<le> length q \<Longrightarrow>
   emptyThreadsToAddQueue s' = drop n q \<Longrightarrow> takenLines (trace s') = tk @ map fst (take n q) \<Longrightarrow>
   served q tk s'"
  unfolding served_def by blast

lemma served_Cons:
  "served q (tk @ [fst r]) s' \<Longrightarrow> served (r # q) tk s'"
  unfolding served_def
proof (elim conjE exE)
  fix n assume a: "serial s'" "\<not> addInProgress s' \<longrightarrow> emptyThreadsToAddQueue s' = []"
    "n \<le> length q" "emptyThreadsToAddQueue s' = drop n q"
    "takenLines (trace s') = (tk @ [fst r]) @ map fst (take n q)"
  have "Suc n \<le> length (r # q)" using a(3) by simp
  moreover have "emptyThreadsToAddQueue s' = drop (Suc n) (r # q)" using a(4) by simp
  moreover have "takenLines (trace s') = tk @ map fst (take (Suc n) (r # q))" using a(5) by simp
  ultimately show "serial s' \<and> (\<not> addInProgress s' \<longrightarrow> emptyThreadsToAddQueue s' = []) \<and>
      (\<exists>n \<le> length (r # q). emptyThreadsToAddQueue s' = drop n (r # q) \<and>
         takenLines (trace s') = tk @ map fst (take n (r # q)))"
    using a(1,2) by blast
qed

lemma lockOf_snoc:
  "lockOf (s\<lparr>trace := trace s @ [ev]\<rparr>) = (case lockOf s of None \<Rightarrow> None | Some st \<Rightarrow> lockStep st ev)"
  by (simp add: lockOf_def lockRun_snoc)

lemma lockOf_simps [simp]:
  "lockOf (s\<lparr>addInProgress := b\<rparr>) = lockOf s"
  "lockOf (s\<lparr>emptyThreadsToAddQueue := q\<rparr>) = lockOf s"
  "lockOf (s\<lparr>backendCalls := c\<rparr>) = lockOf s"
  by (simp_all add: lockOf_def)

lemma serializer_invariants:
  "(serial s \<longrightarrow>
      served (if addInProgress s then emptyThreadsToAddQueue s @ [(l, e)]
              else (l, e) # emptyThreadsToAddQueue s)
        (takenLines (trace s)) (addOrToggleCommentAtLine E l e s))"
  "(lockOf s2 \<noteq> None \<and> lockOf s2 \<noteq> Some Idle \<longrightarrow>
      served (emptyThreadsToAddQueue s2) (takenLines (trace s2)) (processNextThreadToAdd E2 s2))"
  "(lockOf s3 = Some (Held l3) \<and> addInProgress s3 \<longrightarrow>
      served (emptyThreadsToAddQueue s3) (takenLines (trace s3)) (addCommentAtLine E3 l3 e3 s3))"
  "(lockOf s4 \<noteq> None \<and> lockOf s4 \<noteq> Some Idle \<and> addInProgress s4 \<longrightarrow>
      served (emptyThreadsToAddQueue s4) (takenLines (trace s4)) (addCommentAtLine2 E4 l4 o4 s4))"
proof (induction E l e s and E2 s2 and E3 l3 e3 s3 and E4 l4 o4 s4
    rule: addOrToggleCommentAtLine_processNextThreadToAdd_addCommentAtLine_addCommentAtLine2.induct)
  case (1 E lineNumber e s)
  show ?case
  proof
    assume ser: "serial s"
    let ?s1 = "s\<lparr>addInProgress := True, trace := trace s @ [Taken lineNumber]\<rparr>"
    show "served (if addInProgress s then emptyThreadsToAddQueue s @ [(lineNumber, e)]
              else (lineNumber, e) # emptyThreadsToAddQueue s)
        (takenLines (trace s)) (addOrToggleCommentAtLine E lineNumber e s)"
    proof (cases "addInProgress s")
      case True
      then obtain st where st: "lockOf s = Some st" "st \<noteq> Idle"
        using ser by (auto simp: serial_def split: option.splits)
      have "lockStep st (Enqueued lineNumber) = Some st" using st(2) by (cases st) auto
      then have "serial (s\<lparr>emptyThreadsToAddQueue := emptyThreadsToAddQueue s @ [(lineNumber, e)],
             trace := trace s @ [Enqueued lineNumber]\<rparr>)"
        using st True by (simp add: serial_def lockOf_def lockRun_snoc)
      then show ?thesis using True
        by (intro servedI[where n=0])
           (simp_all add: addOrToggleCommentAtLine.simps[of E lineNumber e s] takenLines_append)
    next
      case False
      then have idle: "lockOf s = Some Idle"
        using ser by (auto simp: serial_def split: option.splits)
      then have held: "lockOf ?s1 = Some (Held lineNumber)"
        by (simp add: lockOf_def lockRun_snoc)
      have tk: "takenLines (trace ?s1) = takenLines (trace s) @ [lineNumber]"
        by (simp add: takenLines_append)
      show ?thesis
      proof (cases "filter (\<lambda>widget. getGlyphPosition E widget = lineNumber) (commentWidgets s) \<noteq> []")
        case True
        have "served (emptyThreadsToAddQueue ?s1) (takenLines (trace ?s1)) (processNextThreadToAdd E ?s1)"
          using "1.IH"(1)[OF False True] held by simp
        then show ?thesis using False True tk
          by (simp add: addOrToggleCommentAtLine.simps[of E lineNumber e s] served_Cons)
      next
        case noW: False
        have "served (emptyThreadsToAddQueue ?s1) (takenLines (trace ?s1)) (addCommentAtLine E lineNumber e ?s1)"
          using "1.IH"(2)[OF False noW] held by simp
        then show ?thesis using False noW tk
          by (simp add: addOrToggleCommentAtLine.simps[of E lineNumber e s] served_Cons)
      qed
    qed
  qed
next
  case (2 E s)
  show ?case
  proof
    assume "lockOf s \<noteq> None \<and> lockOf s \<noteq> Some Idle"
    then obtain st where st: "lockOf s = Some st" "st \<noteq> Idle" by auto
    have rel: "lockStep st Released = Some Idle" using st(2) by (cases st) auto
    show "served (emptyThreadsToAddQueue s) (takenLines (trace s)) (processNextThreadToAdd E s)"
    proof (cases "emptyThreadsToAddQueue s")
      case Nil
      have "serial (s\<lparr>addInProgress := False, trace := trace s @ [Released]\<rparr>)"
        using st rel by (simp add: serial_def lockOf_def lockRun_snoc)
      then show ?thesis using Nil
        by (intro servedI[where n=0])
           (simp_all add: processNextThreadToAdd.simps[of E s] takenLines_append)
    next
      case (Cons info rest)
      let ?s1 = "s\<lparr>addInProgress := False, emptyThreadsToAddQueue := rest,
               trace := trace s @ [Released]\<rparr>"
      have "serial ?s1" using st rel by (simp add: serial_def lockOf_def lockRun_snoc)
      then have "served ((fst info, snd info) # rest) (takenLines (trace ?s1))
                   (addOrToggleCommentAtLine E (fst info) (snd info) ?s1)"
        using "2.IH"[OF Cons] by simp
      then show ?thesis using Cons
        by (simp add: processNextThreadToAdd.simps[of E s] takenLines_append)
    qed
  qed
next
  case (3 E lineNumber e s)
  show ?case
  proof
    assume a: "lockOf s = Some (Held lineNumber) \<and> addInProgress s"
    let ?s1 = "s\<lparr>trace := trace s @ [Workflow lineNumber]\<rparr>"
    have run: "lockOf ?s1 = Some (Running lineNumber)"
      using a by (simp add: lockOf_def lockRun_snoc)
    have stay: "served (emptyThreadsToAddQueue s) (takenLines (trace s)) ?s1"
      using a run by (intro servedI[where n=0]) (simp_all add: serial_def takenLines_append)
    show "served (emptyThreadsToAddQueue s) (takenLines (trace s)) (addCommentAtLine E lineNumber e s)"
    proof (cases "currentEditor E \<noteq> None \<and> getMatchedCommentAction E lineNumber \<noteq> []
                  \<and> \<not> 1 < length (getMatchedCommentAction E lineNumber)")
      case True
      then have "served (emptyThreadsToAddQueue ?s1) (takenLines (trace ?s1))
           (addCommentAtLine2 E lineNumber (hd (getMatchedCommentAction E lineNumber)) ?s1)"
        using "3.IH" run a by simp
      then show ?thesis using True
        by (auto simp: addCommentAtLine.simps[of E lineNumber e s] takenLines_append)
    next
      case False
      then show ?thesis using stay
        by (auto simp: addCommentAtLine.simps[of E lineNumber e s])
    qed
  qed
next
  case (4 E lineNumber ownerId s)
  show ?case
  proof
    assume a: "lockOf s \<noteq> None \<and> lockOf s \<noteq> Some Idle \<and> addInProgress s"
    show "served (emptyThreadsToAddQueue s) (takenLines (trace s)) (addCommentAtLine2 E lineNumber ownerId s)"
    proof (cases "editorURI E")
      case None
      have "served (emptyThreadsToAddQueue s) (takenLines (trace s)) s"
        using a by (intro servedI[where n=0]) (auto simp: serial_def)
      then show ?thesis using None by (simp add: addCommentAtLine2.simps[of E lineNumber ownerId s])
    next
      case (Some uri)
      show ?thesis using "4.IH"[OF Some] a Some
        by (simp add: addCommentAtLine2.simps[of E lineNumber ownerId s])
    qed
  qed
qed


lemma served_request:
  assumes "served reqs [] s"
  shows "served (reqs @ [r]) [] (addOrToggleCommentAtLine E (fst r) (snd r) s)"
proof -
  from assms obtain k where k: "k \<le> length reqs" "emptyThreadsToAddQueue s = drop k reqs"
      "takenLines (trace s) = map fst (take k reqs)"
    and ser: "serial s" and emp: "\<not> addInProgress s \<longrightarrow> emptyThreadsToAddQueue s = []"
    unfolding served_def by auto
  let ?q = "emptyThreadsToAddQueue s @ [r]"
  let ?s' = "addOrToggleCommentAtLine E (fst r) (snd r) s"
  have "(if addInProgress s then emptyThreadsToAddQueue s @ [(fst r, snd r)]
         else (fst r, snd r) # emptyThreadsToAddQueue s) = ?q"
    using emp by simp
  then have "served ?q (takenLines (trace s)) ?s'"
    using serializer_invariants(1)[of s "fst r" "snd r" E] ser by simp
  then obtain n where n: "n \<le> length ?q" "emptyThreadsToAddQueue ?s' = drop n ?q"
      "takenLines (trace ?s') = takenLines (trace s) @ map fst (take n ?q)"
    and ser': "serial ?s'" and emp': "\<not> addInProgress ?s' \<longrightarrow> emptyThreadsToAddQueue ?s' = []"
    unfolding served_def by auto
  define R where "R = reqs @ [r]"
  have q: "?q = drop k R" using k(1,2) by (simp add: R_def)
  have len: "k + n \<le> length R" using n(1) k(1,2) by (simp add: R_def)
  have "emptyThreadsToAddQueue ?s' = drop n (drop k R)"
    using n(2) q by simp
  then have dr: "emptyThreadsToAddQueue ?s' = drop (k + n) R"
    by (simp add: add.commute)
  have "take k reqs = take k R" using k(1) by (simp add: R_def)
  then have "takenLines (trace ?s') = map fst (take k R @ take n (drop k R))"
    using n(3) k(3) q by simp
  then have tk: "takenLines (trace ?s') = [] @ map fst (take (k + n) R)"
    by (simp add: take_add)
  show ?thesis
    unfolding R_def[symmetric]
    using ser' emp' len dr tk by (intro servedI[where n="k + n"]) auto
qed

lemma served_initial: "served [] [] initial"
  by (simp add: served_def serial_def lockOf_def initial_def)

lemma served_requests: "served reqs [] (requests E reqs initial)"
proof (induction reqs rule: rev_induct)
  case Nil
  show ?case by (simp add: requests_def served_initial)
next
  case (snoc r reqs)
  then show ?case using served_request[of reqs "requests E reqs initial" r E]
    by (simp add: requests_def)
qed

lemma serializer_widgets:
  "commentWidgets (addOrToggleCommentAtLine E l e s) = commentWidgets s"
  "commentWidgets (processNextThreadToAdd E2 s2) = commentWidgets s2"
  "commentWidgets (addCommentAtLine E3 l3 e3 s3) = commentWidgets s3"
  "commentWidgets (addCommentAtLine2 E4 l4 o4 s4) = commentWidgets s4"
proof (induction E l e s and E2 s2 and E3 l3 e3 s3 and E4 l4 o4 s4
    rule: addOrToggleCommentAtLine_processNextThreadToAdd_addCommentAtLine_addCommentAtLine2.induct)
  case (1 E lineNumber e s)
  then show ?case by (simp add: addOrToggleCommentAtLine.simps[of E lineNumber e s])
next
  case (2 E s)
  then show ?case by (cases "emptyThreadsToAddQueue s") (simp_all add: processNextThreadToAdd.simps[of E s])
next
  case (3 E lineNumber e s)
  then show ?case by (auto simp: addCommentAtLine.simps[of E lineNumber e s])
next
  case (4 E lineNumber ownerId s)
  then show ?case by (cases "editorURI E") (simp_all add: addCommentAtLine2.simps[of E lineNumber ownerId s])
qed

lemma serializer_no_create_on_occupied:
  "(occupied E k s \<longrightarrow>
     filter (createsAt k) (backendCalls (addOrToggleCommentAtLine E l e s))
       = filter (createsAt k) (backendCalls s))"
  "(occupied E2 k s2 \<longrightarrow>
     filter (createsAt k) (backendCalls (processNextThreadToAdd E2 s2))
       = filter (createsAt k) (backendCalls s2))"
  "(occupied E3 k s3 \<and> l3 \<noteq> k \<longrightarrow>
     filter (createsAt k) (backendCalls (addCommentAtLine E3 l3 e3 s3))
       = filter (createsAt k) (backendCalls s3))"
  "(occupied E4 k s4 \<and> l4 \<noteq> k \<longrightarrow>
     filter (createsAt k) (backendCalls (addCommentAtLine2 E4 l4 o4 s4))
       = filter (createsAt k) (backendCalls s4))"
proof (induction E l e s and E2 s2 and E3 l3 e3 s3 and E4 l4 o4 s4
    rule: addOrToggleCommentAtLine_processNextThreadToAdd_addCommentAtLine_addCommentAtLine2.induct)
  case (1 E lineNumber e s)
  then show ?case
    by (auto simp: addOrToggleCommentAtLine.simps[of E lineNumber e s] occupied_def)
next
  case (2 E s)
  then show ?case
    by (cases "emptyThreadsToAddQueue s") (simp_all add: processNextThreadToAdd.simps[of E s] occupied_def)
next
  case (3 E lineNumber e s)
  then show ?case by (auto simp: addCommentAtLine.simps[of E lineNumber e s] occupied_def)
next
  case (4 E lineNumber ownerId s)
  then show ?case
    by (cases "editorURI E") (simp_all add: addCommentAtLine2.simps[of E lineNumber ownerId s] occupied_def)
qed

lemma drainedFrom_cong:
  "takenLines (trace s1) = takenLines (trace s) @ tk \<Longrightarrow>
   commentWidgets s1 = commentWidgets s \<Longrightarrow>
   emptyThreadsToAddQueue s1 = emptyThreadsToAddQueue s \<Longrightarrow>
   drainedFrom E s1 s' \<Longrightarrow>
   takenLines (trace s') = takenLines (trace s) @ tk
         @ map fst (take (Suc (released E (commentWidgets s) (emptyThreadsToAddQueue s)))
                      (emptyThreadsToAddQueue s))
      \<and> emptyThreadsToAddQueue s'
          = drop (Suc (released E (commentWidgets s) (emptyThreadsToAddQueue s)))
              (emptyThreadsToAddQueue s)
      \<and> addInProgress s'
          = (released E (commentWidgets s) (emptyThreadsToAddQueue s)
               < length (emptyThreadsToAddQueue s))"
  by (simp add: drainedFrom_def)

lemma serializer_drain:
  "(\<not> addInProgress s \<longrightarrow>
      (if releasing E (commentWidgets s) l
       then takenLines (trace (addOrToggleCommentAtLine E l e s)) = takenLines (trace s) @ [l]
              @ map fst (take (Suc (released E (commentWidgets s) (emptyThreadsToAddQueue s)))
                      (emptyThreadsToAddQueue s))
            \<and> emptyThreadsToAddQueue (addOrToggleCommentAtLine E l e s)
                = drop (Suc (released E (commentWidgets s) (emptyThreadsToAddQueue s)))
                    (emptyThreadsToAddQueue s)
            \<and> addInProgress (addOrToggleCommentAtLine E l e s)
                = (released E (commentWidgets s) (emptyThreadsToAddQueue s)
                     < length (emptyThreadsToAddQueue s))
       else takenLines (trace (addOrToggleCommentAtLine E l e s)) = takenLines (trace s) @ [l]
            \<and> emptyThreadsToAddQueue (addOrToggleCommentAtLine E l e s) = emptyThreadsToAddQueue s
            \<and> addInProgress (addOrToggleCommentAtLine E l e s)))"
  "drainedFrom E2 s2 (processNextThreadToAdd E2 s2)"
  "(if currentEditor E3 \<noteq> None \<and> length (getMatchedCommentAction E3 l3) = 1
        \<and> editorURI E3 \<noteq> None
    then drainedFrom E3 s3 (addCommentAtLine E3 l3 e3 s3)
    else stuckFrom s3 (addCommentAtLine E3 l3 e3 s3))"
  "(if editorURI E4 \<noteq> None
    then drainedFrom E4 s4 (addCommentAtLine2 E4 l4 o4 s4)
    else stuckFrom s4 (addCommentAtLine2 E4 l4 o4 s4))"
proof (induction E l e s and E2 s2 and E3 l3 e3 s3 and E4 l4 o4 s4
    rule: addOrToggleCommentAtLine_processNextThreadToAdd_addCommentAtLine_addCommentAtLine2.induct)
  case (1 E lineNumber e s)
  let ?s1 = "s\<lparr>addInProgress := True, trace := trace s @ [Taken lineNumber]\<rparr>"
  have tk: "takenLines (trace ?s1) = takenLines (trace s) @ [lineNumber]"
    by (simp add: takenLines_append)
  show ?case
  proof (intro impI)
    assume free: "\<not> addInProgress s"
    show "if releasing E (commentWidgets s) lineNumber
       then takenLines (trace (addOrToggleCommentAtLine E lineNumber e s)) = takenLines (trace s) @ [lineNumber]
              @ map fst (take (Suc (released E (commentWidgets s) (emptyThreadsToAddQueue s)))
                      (emptyThreadsToAddQueue s))
            \<and> emptyThreadsToAddQueue (addOrToggleCommentAtLine E lineNumber e s)
                = drop (Suc (released E (commentWidgets s) (emptyThreadsToAddQueue s)))
                    (emptyThreadsToAddQueue s)
            \<and> addInProgress (addOrToggleCommentAtLine E lineNumber e s)
                = (released E (commentWidgets s) (emptyThreadsToAddQueue s)
                     < length (emptyThreadsToAddQueue s))
       else takenLines (trace (addOrToggleCommentAtLine E lineNumber e s)) = takenLines (trace s) @ [lineNumber]
            \<and> emptyThreadsToAddQueue (addOrToggleCommentAtLine E lineNumber e s) = emptyThreadsToAddQueue s
            \<and> addInProgress (addOrToggleCommentAtLine E lineNumber e s)"
    proof (cases "filter (\<lambda>widget. getGlyphPosition E widget = lineNumber) (commentWidgets s) \<noteq> []")
      case True
      then have rel: "releasing E (commentWidgets s) lineNumber" by (simp add: releasing_def)
      have eq: "addOrToggleCommentAtLine E lineNumber e s = processNextThreadToAdd E ?s1"
        using free True by (simp add: addOrToggleCommentAtLine.simps[of E lineNumber e s])
      have "drainedFrom E ?s1 (processNextThreadToAdd E ?s1)"
        using "1.IH"(1)[OF free True] .
      from drainedFrom_cong[OF tk _ _ this] show ?thesis using rel eq by simp
    next
      case False
      have eq: "addOrToggleCommentAtLine E lineNumber e s = addCommentAtLine E lineNumber e ?s1"
        using free False by (simp add: addOrToggleCommentAtLine.simps[of E lineNumber e s])
      have rel: "releasing E (commentWidgets s) lineNumber
          = (currentEditor E \<noteq> None \<and> length (getMatchedCommentAction E lineNumber) = 1
              \<and> editorURI E \<noteq> None)"
        using False by (simp add: releasing_def)
      note ih = "1.IH"(2)[OF free False]
      show ?thesis
      proof (cases "currentEditor E \<noteq> None \<and> length (getMatchedCommentAction E lineNumber) = 1
              \<and> editorURI E \<noteq> None")
        case True
        then have "drainedFrom E ?s1 (addCommentAtLine E lineNumber e ?s1)" using ih by simp
        moreover have yes: "releasing E (commentWidgets s) lineNumber" using rel True by blast
        ultimately show ?thesis using drainedFrom_cong[OF tk, of E "addCommentAtLine E lineNumber e ?s1"] eq
          by simp
      next
        case stuck: False
        then have "stuckFrom ?s1 (addCommentAtLine E lineNumber e ?s1)" using ih by simp
        moreover have "\<not> releasing E (commentWidgets s) lineNumber" using rel stuck by blast
        ultimately show ?thesis using eq tk by (simp add: stuckFrom_def)
      qed
    qed
  qed
next
  case (2 E s)
  show ?case
  proof (cases "emptyThreadsToAddQueue s")
    case Nil
    then show ?thesis
      by (simp add: processNextThreadToAdd.simps[of E s] drainedFrom_def released_def
            takenLines_append)
  next
    case (Cons info rest)
    let ?s1 = "s\<lparr>addInProgress := False, emptyThreadsToAddQueue := rest,
               trace := trace s @ [Released]\<rparr>"
    have eq: "processNextThreadToAdd E s = addOrToggleCommentAtLine E (fst info) (snd info) ?s1"
      using Cons by (simp add: processNextThreadToAdd.simps[of E s])
    have tk: "takenLines (trace ?s1) = takenLines (trace s)" by (simp add: takenLines_append)
    note ih = "2.IH"[OF Cons, THEN mp, of]
    show ?thesis
    proof (cases "releasing E (commentWidgets s) (fst info)")
      case True
      then have k: "released E (commentWidgets s) (info # rest) = Suc (released E (commentWidgets s) rest)"
        by (simp add: released_def)
      show ?thesis using ih True Cons tk eq k by (simp add: drainedFrom_def)
    next
      case False
      then have k: "released E (commentWidgets s) (info # rest) = 0"
        by (simp add: released_def)
      show ?thesis using ih False Cons tk eq k by (simp add: drainedFrom_def)
    qed
  qed
next
  case (3 E lineNumber e s)
  let ?s1 = "s\<lparr>trace := trace s @ [Workflow lineNumber]\<rparr>"
  have tk: "takenLines (trace ?s1) = takenLines (trace s)" by (simp add: takenLines_append)
  show ?case
  proof (cases "currentEditor E \<noteq> None \<and> getMatchedCommentAction E lineNumber \<noteq> []
                  \<and> \<not> 1 < length (getMatchedCommentAction E lineNumber)")
    case True
    then have one: "length (getMatchedCommentAction E lineNumber) = 1"
      by (cases "getMatchedCommentAction E lineNumber") auto
    have eq: "addCommentAtLine E lineNumber e s
        = addCommentAtLine2 E lineNumber (hd (getMatchedCommentAction E lineNumber)) ?s1"
      using True by (auto simp: addCommentAtLine.simps[of E lineNumber e s])
    have ih: "if editorURI E \<noteq> None
        then drainedFrom E ?s1 (addCommentAtLine2 E lineNumber (hd (getMatchedCommentAction E lineNumber)) ?s1)
        else stuckFrom ?s1 (addCommentAtLine2 E lineNumber (hd (getMatchedCommentAction E lineNumber)) ?s1)"
      using "3.IH" True by simp
    show ?thesis using ih True one eq tk
      by (auto simp: drainedFrom_def stuckFrom_def)
  next
    case False
    then have none: "\<not> (currentEditor E \<noteq> None \<and> length (getMatchedCommentAction E lineNumber) = 1
        \<and> editorURI E \<noteq> None)"
      by (cases "getMatchedCommentAction E lineNumber") auto
    have "addCommentAtLine E lineNumber e s = ?s1"
      using False by (auto simp: addCommentAtLine.simps[of E lineNumber e s])
    then have "stuckFrom s (addCommentAtLine E lineNumber e s)"
      using tk by (simp add: stuckFrom_def)
    then show ?thesis using none by (simp only: if_False)
  qed
next
  case (4 E lineNumber ownerId s)
  show ?case
  proof (cases "editorURI E")
    case None
    then show ?thesis
      by (simp add: addCommentAtLine2.simps[of E lineNumber ownerId s] stuckFrom_def)
  next
    case (Some uri)
    show ?thesis using "4.IH"[OF Some] Some
      by (simp add: addCommentAtLine2.simps[of E lineNumber ownerId s] drainedFrom_def)
  qed
qed

section \<open>The reconciler: lemmas\<close>

lemma indexOf_member: "x \<in> set xs \<Longrightarrow> 0 \<le> indexOf x xs \<and> nat (indexOf x xs) < length xs"
  by (induction xs) auto

lemma splice1_indexOf: "x \<in> set xs \<Longrightarrow> splice1 (indexOf x xs) xs = remove1 x xs"
proof (induction xs)
  case Nil
  then show ?case by simp
next
  case (Cons y ys)
  show ?case
  proof (cases "x = y")
    case True
    then show ?thesis by (simp add: splice1_def)
  next
    case False
    then have mem: "x \<in> set ys" using Cons.prems by simp
    then have nn: "0 \<le> indexOf x ys" using indexOf_member[of x ys] by simp
    have "splice1 (indexOf x ys) ys = remove1 x ys" using Cons.IH mem by simp
    then have "take (nat (indexOf x ys)) ys @ drop (nat (indexOf x ys) + 1) ys = remove1 x ys"
      using nn by (simp add: splice1_def)
    then show ?thesis using False nn by (simp add: splice1_def nat_add_distrib)
  qed
qed

lemma filter_hd_member: "filter P xs = z # zs \<Longrightarrow> z \<in> set xs \<and> P z"
proof -
  assume "filter P xs = z # zs"
  then have "z \<in> set (filter P xs)" by simp
  then show ?thesis by simp
qed

lemma removeThread_widgets:
  "commentWidgets (removeThread eOwner thread s) =
     (case filter (matchesRemoved eOwner thread) (commentWidgets s) of
        [] \<Rightarrow> commentWidgets s
      | z # zs \<Rightarrow> remove1 z (commentWidgets s))"
proof (cases "filter (matchesRemoved eOwner thread) (commentWidgets s)")
  case Nil
  then show ?thesis by (simp add: removeThread_def)
next
  case (Cons z zs)
  then have "z \<in> set (commentWidgets s)" using filter_hd_member by fast
  then show ?thesis using Cons by (simp add: removeThread_def splice1_indexOf)
qed

lemma filter_pos: "z \<in> set xs \<Longrightarrow> P z \<Longrightarrow> 0 < length (filter P xs)"
  by (induction xs) auto

lemma length_filter_remove1:
  "z \<in> set xs \<Longrightarrow> length (filter P (remove1 z xs)) = length (filter P xs) - (if P z then 1 else 0)"
proof (induction xs)
  case Nil
  then show ?case by simp
next
  case (Cons a xs)
  show ?case
  proof (cases "z = a")
    case True
    then show ?thesis by simp
  next
    case False
    then have mem: "z \<in> set xs" using Cons.prems by simp
    show ?thesis using False Cons.IH[OF mem] filter_pos[OF mem, of P] by auto
  qed
qed

lemma count_removeThread:
  "length (widgetsFor o' tid (commentWidgets (removeThread eOwner thread s))) =
     length (widgetsFor o' tid (commentWidgets s)) - (if o' = eOwner \<and> tid = threadId thread \<and> tid \<noteq> [] then 1 else 0)"
proof (cases "filter (matchesRemoved eOwner thread) (commentWidgets s)")
  case Nil
  then have none: "\<forall>w \<in> set (commentWidgets s). \<not> matchesRemoved eOwner thread w"
    by (simp add: filter_empty_conv)
  have same: "commentWidgets (removeThread eOwner thread s) = commentWidgets s"
    using Nil by (simp add: removeThread_widgets)
  show ?thesis
  proof (cases "o' = eOwner \<and> tid = threadId thread \<and> tid \<noteq> []")
    case True
    then have "widgetsFor o' tid (commentWidgets s) = []"
      using none by (auto simp: widgetsFor_def matchesRemoved_def filter_empty_conv)
    then show ?thesis using same by (simp add: widgetsFor_def)
  next
    case False
    then show ?thesis using same by (auto simp: widgetsFor_def)
  qed
next
  case (Cons z zs)
  then have z: "z \<in> set (commentWidgets s)" "matchesRemoved eOwner thread z"
    using filter_hd_member by fast+
  have rem: "commentWidgets (removeThread eOwner thread s) = remove1 z (commentWidgets s)"
    using Cons by (simp add: removeThread_widgets)
  have "(widget_owner z = o' \<and> threadId (commentThread z) = tid)
          = (o' = eOwner \<and> tid = threadId thread \<and> tid \<noteq> [])"
    using z(2) by (auto simp: matchesRemoved_def)
  then show ?thesis
    using length_filter_remove1[OF z(1), of "\<lambda>w. widget_owner w = o' \<and> threadId (commentThread w) = tid"] rem
    by (simp add: widgetsFor_def)
qed

lemma count_removed_fold:
  "length (widgetsFor o' tid (commentWidgets (fold (removeThread eOwner) ts s))) =
     length (widgetsFor o' tid (commentWidgets s))
       - (if o' = eOwner \<and> tid \<noteq> [] then length (filter (\<lambda>t. threadId t = tid) ts) else 0)"
proof (induction ts arbitrary: s)
  case Nil
  then show ?case by simp
next
  case (Cons t ts)
  have "length (widgetsFor o' tid (commentWidgets (fold (removeThread eOwner) (t # ts) s))) =
     length (widgetsFor o' tid (commentWidgets (removeThread eOwner t s)))
       - (if o' = eOwner \<and> tid \<noteq> [] then length (filter (\<lambda>t. threadId t = tid) ts) else 0)"
    using Cons.IH[of "removeThread eOwner t s"] by simp
  then show ?case
    by (cases "o' = eOwner \<and> tid \<noteq> []"; cases "threadId t = tid") (auto simp: count_removeThread)
qed


lemma removeThread_frame:
  "commentInfos (removeThread eOwner thread s) = commentInfos s"
  "computePromise (removeThread eOwner thread s) = computePromise s"
  "pendingCommentCache (removeThread eOwner thread s) = pendingCommentCache s"
  by (simp_all add: removeThread_def split: list.splits)

lemma removed_fold_frame:
  "commentInfos (fold (removeThread eOwner) ts s) = commentInfos s
   \<and> computePromise (fold (removeThread eOwner) ts s) = computePromise s
   \<and> pendingCommentCache (fold (removeThread eOwner) ts s) = pendingCommentCache s"
  by (induction ts arbitrary: s) (simp_all add: removeThread_frame)

lemma changeThread_frame:
  "commentWidgets (changeThread eOwner thread s) = commentWidgets s"
  "commentInfos (changeThread eOwner thread s) = commentInfos s"
  "computePromise (changeThread eOwner thread s) = computePromise s"
  "pendingCommentCache (changeThread eOwner thread s) = pendingCommentCache s"
  by (simp_all add: changeThread_def split: list.splits)

lemma changed_fold_frame:
  "commentWidgets (fold (changeThread eOwner) ts s) = commentWidgets s
   \<and> commentInfos (fold (changeThread eOwner) ts s) = commentInfos s
   \<and> computePromise (fold (changeThread eOwner) ts s) = computePromise s
   \<and> pendingCommentCache (fold (changeThread eOwner) ts s) = pendingCommentCache s"
  by (induction ts arbitrary: s) (simp_all add: changeThread_frame)

lemma editor_of_uri: "editorURI E = Some uri \<Longrightarrow> editor E = Some (Some uri)"
  by (simp add: editorURI_def split: option.splits)

lemma displayCommentThread_shown:
  assumes "editor E = Some m"
  shows "commentWidgets (displayCommentThread E eOwner thread p s)
           = commentWidgets s @ [zoneWidgetFor eOwner thread]"
    and "commentInfos (displayCommentThread E eOwner thread p s) = commentInfos s"
    and "computePromise (displayCommentThread E eOwner thread p s) = computePromise s"
    and "pendingCommentCache (displayCommentThread E eOwner thread p s) = pendingCommentCache s"
  using assms by (simp_all add: displayCommentThread_def zoneWidgetFor_def)

lemma pushThread_known:
  "filter (\<lambda>info. owner info = eOwner) infos \<noteq> [] \<Longrightarrow>
   \<exists>infos'. pushThread eOwner thread infos = Some infos'
      \<and> filter (\<lambda>info. owner info = eOwner) infos' \<noteq> []"
  by (induction infos) auto

lemma addThread_returns:
  assumes "editor E = Some m" and "knownOwner eOwner s"
  shows "\<exists>s'. addThread E eOwner thread s = Returned s'
           \<and> commentWidgets s' = commentWidgets s @ [zoneWidgetFor eOwner thread]
           \<and> knownOwner eOwner s'
           \<and> computePromise s' = computePromise s
           \<and> pendingCommentCache s' = pendingCommentCache s"
proof -
  let ?p = "case pendingCommentCache s eOwner of None \<Rightarrow> None
            | Some texts \<Rightarrow> texts (threadId thread)"
  let ?d = "displayCommentThread E eOwner thread ?p s"
  have "filter (\<lambda>info. owner info = eOwner) (commentInfos ?d) \<noteq> []"
    using assms by (simp add: displayCommentThread_shown knownOwner_def)
  then obtain infos' where p: "pushThread eOwner thread (commentInfos ?d) = Some infos'"
      "filter (\<lambda>info. owner info = eOwner) infos' \<noteq> []"
    using pushThread_known by blast
  have "addThread E eOwner thread s = Returned (?d\<lparr>commentInfos := infos'\<rparr>)"
    using p(1) by (simp add: addThread_def)
  then show ?thesis
    using p(2) assms(1) by (simp add: displayCommentThread_shown knownOwner_def)
qed

lemma addedForEach_returns:
  assumes "editor E = Some m"
  shows "knownOwner eOwner s \<Longrightarrow>
         \<exists>s'. addedForEach E eOwner ts s = Returned s'
           \<and> commentWidgets s' = commentWidgets s @ map (zoneWidgetFor eOwner) ts
           \<and> knownOwner eOwner s'
           \<and> computePromise s' = computePromise s
           \<and> pendingCommentCache s' = pendingCommentCache s"
proof (induction ts arbitrary: s)
  case Nil
  then show ?case by simp
next
  case (Cons t ts)
  from addThread_returns[OF assms Cons.prems, of t] obtain s1 where
    s1: "addThread E eOwner t s = Returned s1"
        "commentWidgets s1 = commentWidgets s @ [zoneWidgetFor eOwner t]"
        "knownOwner eOwner s1" "computePromise s1 = computePromise s"
        "pendingCommentCache s1 = pendingCommentCache s"
    by blast
  from Cons.IH[OF s1(3)] obtain s' where
    s': "addedForEach E eOwner ts s1 = Returned s'"
        "commentWidgets s' = commentWidgets s1 @ map (zoneWidgetFor eOwner) ts"
        "knownOwner eOwner s'" "computePromise s' = computePromise s1"
        "pendingCommentCache s' = pendingCommentCache s1"
    by blast
  show ?case using s1 s' by simp
qed

text \<open>The whole handler on a known owner, with a resource and no compute promise.\<close>

lemma handler_returns:
  assumes "editorURI E = Some uri" and "computePromise s = None" and "knownOwner (ev_owner e) s"
  shows "\<exists>s'. onDidUpdateCommentThreads E e s = Returned s'
           \<and> commentWidgets s' =
               commentWidgets (fold (removeThread (ev_owner e)) (filter (onResource uri) (removed e)) s)
                 @ map (zoneWidgetFor (ev_owner e)) (filter (onResource uri) (added e))
           \<and> knownOwner (ev_owner e) s'
           \<and> computePromise s' = None
           \<and> pendingCommentCache s' = pendingCommentCache s"
proof -
  let ?r = "fold (removeThread (ev_owner e)) (filter (onResource uri) (removed e)) s"
  let ?c = "fold (changeThread (ev_owner e)) (filter (onResource uri) (changed e)) ?r"
  have c: "commentWidgets ?c = commentWidgets ?r" "commentInfos ?c = commentInfos s"
      "computePromise ?c = None" "pendingCommentCache ?c = pendingCommentCache s"
    using assms(2) by (simp_all add: changed_fold_frame removed_fold_frame)
  then have "knownOwner (ev_owner e) ?c" using assms(3) by (simp add: knownOwner_def)
  from addedForEach_returns[OF editor_of_uri[OF assms(1)] this, of "filter (onResource uri) (added e)"]
  obtain s' where s': "addedForEach E (ev_owner e) (filter (onResource uri) (added e)) ?c = Returned s'"
      "commentWidgets s' = commentWidgets ?c @ map (zoneWidgetFor (ev_owner e)) (filter (onResource uri) (added e))"
      "knownOwner (ev_owner e) s'" "computePromise s' = computePromise ?c"
      "pendingCommentCache s' = pendingCommentCache ?c"
    by blast
  have "onDidUpdateCommentThreads E e s = Returned s'"
    using assms s'(1) by (simp add: onDidUpdateCommentThreads_def applyThreadDelta_def knownOwner_def)
  then show ?thesis using s' c by simp
qed

lemma widgetsFor_append:
  "widgetsFor o' tid (ws @ ws') = widgetsFor o' tid ws @ widgetsFor o' tid ws'"
  by (simp add: widgetsFor_def)

lemma widgetsFor_zoneWidgets:
  "widgetsFor o' tid (map (zoneWidgetFor eOwner) ts) =
     (if o' = eOwner then map (zoneWidgetFor eOwner) (filter (\<lambda>t. threadId t = tid) ts) else [])"
  by (induction ts) (auto simp: widgetsFor_def zoneWidgetFor_def)

lemma handler_unchanged:
  assumes "\<not> (editorURI E \<noteq> None \<and> computePromise s = None \<and> knownOwner (ev_owner e) s)"
  shows "stateOf (onDidUpdateCommentThreads E e s) = s"
  using assms
  by (auto simp: onDidUpdateCommentThreads_def applyThreadDelta_def knownOwner_def
           split: option.splits)

lemma filter_matchesRemoved:
  "threadId thread \<noteq> [] \<Longrightarrow>
   filter (matchesRemoved eOwner thread) ws = widgetsFor eOwner (threadId thread) ws"
  by (auto simp: widgetsFor_def matchesRemoved_def intro: filter_cong)





















text \<open>The result of \<^verbatim>\<open>displayCommentThread\<close> does not depend on the pending comment.\<close>

lemma displayCommentThread_ignores_pending:
  "displayCommentThread E eOwner thread pendingComment s
     = displayCommentThread E eOwner thread None s"
  by (simp add: displayCommentThread_def)

section \<open>What no event changes\<close>

lemma serializer_frame:
  "computePromise (addOrToggleCommentAtLine E l e s) = computePromise s
   \<and> pendingCommentCache (addOrToggleCommentAtLine E l e s) = pendingCommentCache s"
  "computePromise (processNextThreadToAdd E2 s2) = computePromise s2
   \<and> pendingCommentCache (processNextThreadToAdd E2 s2) = pendingCommentCache s2"
  "computePromise (addCommentAtLine E3 l3 e3 s3) = computePromise s3
   \<and> pendingCommentCache (addCommentAtLine E3 l3 e3 s3) = pendingCommentCache s3"
  "computePromise (addCommentAtLine2 E4 l4 o4 s4) = computePromise s4
   \<and> pendingCommentCache (addCommentAtLine2 E4 l4 o4 s4) = pendingCommentCache s4"
proof (induction E l e s and E2 s2 and E3 l3 e3 s3 and E4 l4 o4 s4
    rule: addOrToggleCommentAtLine_processNextThreadToAdd_addCommentAtLine_addCommentAtLine2.induct)
  case (1 E lineNumber e s)
  then show ?case by (simp add: addOrToggleCommentAtLine.simps[of E lineNumber e s])
next
  case (2 E s)
  then show ?case by (cases "emptyThreadsToAddQueue s") (simp_all add: processNextThreadToAdd.simps[of E s])
next
  case (3 E lineNumber e s)
  then show ?case by (auto simp: addCommentAtLine.simps[of E lineNumber e s])
next
  case (4 E lineNumber ownerId s)
  then show ?case by (cases "editorURI E") (simp_all add: addCommentAtLine2.simps[of E lineNumber ownerId s])
qed

lemma handler_frame:
  "computePromise (stateOf (onDidUpdateCommentThreads E e s)) = computePromise s
   \<and> pendingCommentCache (stateOf (onDidUpdateCommentThreads E e s)) = pendingCommentCache s"
proof (cases "editorURI E \<noteq> None \<and> computePromise s = None \<and> knownOwner (ev_owner e) s")
  case False
  then show ?thesis using handler_unchanged[of E s e] by simp
next
  case True
  then obtain uri where uri: "editorURI E = Some uri" by auto
  from True have cp: "computePromise s = None" and ko: "knownOwner (ev_owner e) s" by simp_all
  from handler_returns[OF uri cp ko] obtain s' where
    "onDidUpdateCommentThreads E e s = Returned s'" "computePromise s' = None"
    "pendingCommentCache s' = pendingCommentCache s"
    by blast
  then show ?thesis using cp by simp
qed

lemma step_frame:
  "computePromise (step E a s) = computePromise s
   \<and> pendingCommentCache (step E a s) = pendingCommentCache s"
proof (cases a)
  case (UpdateCommentThreads e)
  then show ?thesis using handler_frame by simp
next
  case (AddOrToggle l e)
  then show ?thesis by (simp add: serializer_frame(1))
next
  case BeginCompute
  then show ?thesis by (simp add: beginCompute_def split: option.splits)
next
  case (CommentsFetched uri comments)
  then show ?thesis
    by (simp add: beginCompute_resume_def setComments_def split: option.splits)
qed

text \<open>No event assigns the compute promise or the cache of pending comments.\<close>

lemma run_frame:
  "computePromise (run acts s) = computePromise s
   \<and> pendingCommentCache (run acts s) = pendingCommentCache s"
proof (induction acts arbitrary: s)
  case Nil
  then show ?case by simp
next
  case (Cons x acts)
  obtain E a where x: "x = (E, a)" by (cases x)
  show ?case using Cons.IH[of "step E a s"] step_frame[of E a s] x by simp
qed

text \<open>Hence the handler is never suspended on the compute promise.\<close>

lemma handler_never_suspended:
  "onDidUpdateCommentThreads E e (run acts initial) \<noteq> Suspended p uri s'"
proof -
  let ?s = "run acts initial"
  have cp: "computePromise ?s = None"
    using run_frame[of acts initial] by (simp add: initial_def)
  show ?thesis
  proof (cases "editorURI E")
    case None
    then show ?thesis by (simp add: onDidUpdateCommentThreads_def)
  next
    case (Some u)
    show ?thesis
    proof (cases "knownOwner (ev_owner e) ?s")
      case True
      from handler_returns[OF Some cp True] show ?thesis by auto
    next
      case False
      then show ?thesis using Some cp
        by (simp add: onDidUpdateCommentThreads_def applyThreadDelta_def knownOwner_def)
    qed
  qed
qed

section \<open>A held lock\<close>

text \<open>
  While the flag is set, requests are only queued; and a request on a free line without
  comment provider leaves the flag set.
\<close>

lemma held_requests_only_queue:
  "addInProgress s \<Longrightarrow>
   addInProgress (requests E reqs s)
   \<and> emptyThreadsToAddQueue (requests E reqs s) = emptyThreadsToAddQueue s @ reqs
   \<and> backendCalls (requests E reqs s) = backendCalls s"
proof (induction reqs arbitrary: s)
  case Nil
  then show ?case by (simp add: requests_def)
next
  case (Cons r reqs)
  let ?s1 = "addOrToggleCommentAtLine E (fst r) (snd r) s"
  have s1: "?s1 = s\<lparr>emptyThreadsToAddQueue := emptyThreadsToAddQueue s @ [(fst r, snd r)],
                     trace := trace s @ [Enqueued (fst r)]\<rparr>"
    using Cons.prems by (simp add: addOrToggleCommentAtLine.simps[of E "fst r" "snd r" s])
  then have "addInProgress ?s1" using Cons.prems by simp
  from Cons.IH[OF this] show ?case using s1 by (simp add: requests_def)
qed

lemma no_provider_keeps_lock:
  assumes "\<not> addInProgress s" and "\<not> occupied E lineNumber s"
    and "getMatchedCommentAction E lineNumber = []"
  shows "addInProgress (addOrToggleCommentAtLine E lineNumber e s)"
  using assms
  by (simp add: occupied_def addOrToggleCommentAtLine.simps[of E lineNumber e s]
        addCommentAtLine.simps)

lemma held_requests_taken:
  "addInProgress s \<Longrightarrow>
   addInProgress (requests E reqs s)
   \<and> takenLines (trace (requests E reqs s)) = takenLines (trace s)"
proof (induction reqs arbitrary: s)
  case Nil
  then show ?case by (simp add: requests_def)
next
  case (Cons r reqs)
  let ?s1 = "addOrToggleCommentAtLine E (fst r) (snd r) s"
  have s1: "?s1 = s\<lparr>emptyThreadsToAddQueue := emptyThreadsToAddQueue s @ [(fst r, snd r)],
                     trace := trace s @ [Enqueued (fst r)]\<rparr>"
    using Cons.prems by (simp add: addOrToggleCommentAtLine.simps[of E "fst r" "snd r" s])
  then have "addInProgress ?s1" using Cons.prems by simp
  from Cons.IH[OF this] show ?case using s1 by (simp add: requests_def takenLines_append)
qed

section \<open>Unfolding on concrete runs\<close>

lemmas run_simps = opened_def diffEnv_def batch_def thread_t1_def thread_unsaved_def info_o1_def
  initial_def editorURI_def editor_def beginCompute_def beginCompute_resume_def
  setComments_def List.map_filter_def onResource_def
  onDidUpdateCommentThreads_def applyThreadDelta_def removeThread_def changeThread_def
  matchesRemoved_def matchesChanged_def addThread_def displayCommentThread_def splice1_def

lemmas serializer_simps = requests_def addOrToggleCommentAtLine.simps processNextThreadToAdd.simps
  addCommentAtLine.simps addCommentAtLine2.simps

lemma stuckOnFive_eval:
  "stuckOnFive = initial\<lparr>addInProgress := True,
      emptyThreadsToAddQueue := [(7, None), (7, None), (9, None), (7, None)],
      trace := [Taken 5, Workflow 5, Enqueued 7, Enqueued 7, Enqueued 9, Enqueued 7]\<rparr>"
  by (simp add: stuckOnFive_def serializer_simps diffEnv_def initial_def editorURI_def editor_def)

section \<open>Properties of the insertion serializer\<close>

text \<open>
  C1. The claim is that every exit of the creation workflow releases the in-progress
  flag. On the code, evaluated here: a request on a line without comment provider, on a
  line with two providers (with or without a mouse event), without current editor, or
  with one provider and a current editor that is not a diff editor, leaves the flag set;
  only the path through \<^verbatim>\<open>addCommentAtLine2\<close> with a resource releases it. After a
  request on a line without provider, the next request is queued, no release is
  recorded, and the comment service is not called.
\<close>

theorem insertion_lock_left_held:
  "addInProgress (addOrToggleCommentAtLine diffEnv 5 None initial)
   \<and> addInProgress (addOrToggleCommentAtLine diffEnv 9 None initial)
   \<and> addInProgress (addOrToggleCommentAtLine diffEnv 9 (Some (MouseDown 8)) initial)
   \<and> addInProgress (addOrToggleCommentAtLine noEditorEnv 7 None initial)
   \<and> addInProgress (addOrToggleCommentAtLine plainEditorEnv 7 None initial)
   \<and> \<not> addInProgress (addOrToggleCommentAtLine diffEnv 7 None initial)
   \<and> trace (requests diffEnv [(5, None), (7, None)] initial)
       = [Taken 5, Workflow 5, Enqueued 7]
   \<and> emptyThreadsToAddQueue (requests diffEnv [(5, None), (7, None)] initial) = [(7, None)]
   \<and> backendCalls (requests diffEnv [(5, None), (7, None)] initial) = []
   \<and> backendCalls (requests diffEnv [(7, None)] initial)
       = [CreateCommentThreadTemplate ''o1'' ''file:///a.ts''
            \<lparr>startLineNumber = 7, endLineNumber = 7, startColumn = 1, endColumn = 1\<rparr>]"
  by (simp add: serializer_simps diffEnv_def noEditorEnv_def plainEditorEnv_def initial_def
        editorURI_def editor_def)

text \<open>
  C2. For every sequence of insert requests issued one after the other on a new
  controller, the requests that passed the gate are, in order, a prefix of the requests
  issued, the queue holds the remaining ones in their order of arrival, and the record
  of control points follows the lock protocol: a request is taken only while no other is
  in progress, a workflow starts only for the request just taken, and the lock is idle
  at the end exactly when the in-progress flag is clear. While the flag is set, in any
  state, requests are appended to the queue in their order of arrival and none is
  taken. \<^verbatim>\<open>processNextThreadToAdd\<close>, in any state, takes the requests from the front
  of the queue in their order: all the releasing ones it finds first and the one after
  them, which keeps the lock; the others stay queued in their order, and the flag is
  clear afterwards exactly when the whole queue was taken and released. When a request
  was in progress, the record of control points follows the lock protocol afterwards
  too.
\<close>

theorem serializer_fifo_one_at_a_time:
  "takenLines (trace (requests E reqs initial))
     = map fst (take (length (takenLines (trace (requests E reqs initial)))) reqs)
   \<and> emptyThreadsToAddQueue (requests E reqs initial)
     = drop (length (takenLines (trace (requests E reqs initial)))) reqs
   \<and> (case lockRun Idle (trace (requests E reqs initial)) of
        None \<Rightarrow> False
      | Some st \<Rightarrow> addInProgress (requests E reqs initial) = (st \<noteq> Idle))
   \<and> (addInProgress s \<longrightarrow>
        emptyThreadsToAddQueue (requests E reqs s) = emptyThreadsToAddQueue s @ reqs
        \<and> takenLines (trace (requests E reqs s)) = takenLines (trace s))
   \<and> takenLines (trace (processNextThreadToAdd E s))
       = takenLines (trace s)
           @ map fst (take (Suc (released E (commentWidgets s) (emptyThreadsToAddQueue s)))
                        (emptyThreadsToAddQueue s))
   \<and> emptyThreadsToAddQueue (processNextThreadToAdd E s)
       = drop (Suc (released E (commentWidgets s) (emptyThreadsToAddQueue s)))
           (emptyThreadsToAddQueue s)
   \<and> addInProgress (processNextThreadToAdd E s)
       = (released E (commentWidgets s) (emptyThreadsToAddQueue s)
            < length (emptyThreadsToAddQueue s))
   \<and> ((case lockRun Idle (trace s) of None \<Rightarrow> False | Some st \<Rightarrow> st \<noteq> Idle) \<longrightarrow>
        (case lockRun Idle (trace (processNextThreadToAdd E s)) of
           None \<Rightarrow> False
         | Some st \<Rightarrow> addInProgress (processNextThreadToAdd E s) = (st \<noteq> Idle)))"
proof -
  let ?s = "requests E reqs initial"
  from served_requests[of reqs E] obtain n where n: "n \<le> length reqs"
     "emptyThreadsToAddQueue ?s = drop n reqs" "takenLines (trace ?s) = map fst (take n reqs)"
     and ser: "serial ?s"
    unfolding served_def by auto
  have "length (takenLines (trace ?s)) = n" using n(1,3) by simp
  then have fromInitial: "takenLines (trace ?s) = map fst (take (length (takenLines (trace ?s))) reqs)
     \<and> emptyThreadsToAddQueue ?s = drop (length (takenLines (trace ?s))) reqs
     \<and> (case lockRun Idle (trace ?s) of None \<Rightarrow> False
         | Some st \<Rightarrow> addInProgress ?s = (st \<noteq> Idle))"
    using n ser by (simp add: serial_def lockOf_def)
  have queued: "addInProgress s \<longrightarrow>
        emptyThreadsToAddQueue (requests E reqs s) = emptyThreadsToAddQueue s @ reqs
        \<and> takenLines (trace (requests E reqs s)) = takenLines (trace s)"
    using held_requests_only_queue[of s E reqs] held_requests_taken[of s E reqs] by simp
  have drain: "drainedFrom E s (processNextThreadToAdd E s)" by (rule serializer_drain(2))
  have lock: "(case lockRun Idle (trace s) of None \<Rightarrow> False | Some st \<Rightarrow> st \<noteq> Idle) \<longrightarrow>
        (case lockRun Idle (trace (processNextThreadToAdd E s)) of
           None \<Rightarrow> False
         | Some st \<Rightarrow> addInProgress (processNextThreadToAdd E s) = (st \<noteq> Idle))"
  proof
    assume "case lockRun Idle (trace s) of None \<Rightarrow> False | Some st \<Rightarrow> st \<noteq> Idle"
    then have "lockOf s \<noteq> None \<and> lockOf s \<noteq> Some Idle"
      by (auto simp: lockOf_def split: option.splits)
    then have "serial (processNextThreadToAdd E s)"
      using serializer_invariants(2)[of s E] by (simp add: served_def)
    then show "case lockRun Idle (trace (processNextThreadToAdd E s)) of
           None \<Rightarrow> False
         | Some st \<Rightarrow> addInProgress (processNextThreadToAdd E s) = (st \<noteq> Idle)"
      by (simp add: serial_def lockOf_def)
  qed
  show ?thesis using fromInitial queued drain lock by (simp only: drainedFrom_def simp_thms)
qed

theorem serializer_fifo_one_at_a_time_witness:
  "takenLines (trace stuckOnFive) = [5]
   \<and> emptyThreadsToAddQueue stuckOnFive = [(7, None), (7, None), (9, None), (7, None)]
   \<and> lockRun Idle (trace stuckOnFive) = Some (Running 5)
   \<and> emptyThreadsToAddQueue (requests diffEnv [(3, None)] stuckOnFive)
       = [(7, None), (7, None), (9, None), (7, None), (3, None)]
   \<and> released diffEnv (commentWidgets stuckOnFive) (emptyThreadsToAddQueue stuckOnFive) = 2
   \<and> takenLines (trace (processNextThreadToAdd diffEnv stuckOnFive)) = [5, 7, 7, 9]
   \<and> emptyThreadsToAddQueue (processNextThreadToAdd diffEnv stuckOnFive) = [(7, None)]
   \<and> addInProgress (processNextThreadToAdd diffEnv stuckOnFive)
   \<and> lockRun Idle (trace (processNextThreadToAdd diffEnv stuckOnFive)) = Some (Running 9)"
proof -
  have held: "addInProgress stuckOnFive" by (simp add: stuckOnFive_eval)
  have lock: "case lockRun Idle (trace stuckOnFive) of None \<Rightarrow> False | Some st \<Rightarrow> st \<noteq> Idle"
    by (simp add: stuckOnFive_eval initial_def)
  have k: "released diffEnv (commentWidgets stuckOnFive) (emptyThreadsToAddQueue stuckOnFive) = 2"
    by (simp add: stuckOnFive_eval initial_def released_def releasing_def diffEnv_def
          editorURI_def editor_def)
  have r5: "lockRun Idle (trace stuckOnFive) = Some (Running 5)"
    by (simp add: stuckOnFive_eval initial_def)
  have r9: "lockRun Idle (trace (processNextThreadToAdd diffEnv stuckOnFive)) = Some (Running 9)"
    by (simp add: stuckOnFive_eval serializer_simps diffEnv_def initial_def editorURI_def editor_def)
  have q: "emptyThreadsToAddQueue stuckOnFive = [(7, None), (7, None), (9, None), (7, None)]"
    and t: "takenLines (trace stuckOnFive) = [5]"
    by (simp_all add: stuckOnFive_eval initial_def)
  show ?thesis
    using held lock k r5 r9 q t
      serializer_fifo_one_at_a_time
        [of diffEnv "[(5, None), (7, None), (7, None), (9, None), (7, None)]" stuckOnFive]
      serializer_fifo_one_at_a_time [of diffEnv "[(3, None)]" stuckOnFive]
    by (simp add: numeral_2_eq_2 numeral_3_eq_3)
qed

text \<open>
  C5. On a line that has a widget with its glyph there, two calls of
  \<^verbatim>\<open>addOrToggleCommentAtLine\<close> in a row leave the widget list as it was (after the
  first call and after the second), and no thread template is created at that line.
\<close>

theorem addOrToggle_occupied_line_twice:
  assumes "occupied E lineNumber s"
  shows "commentWidgets (addOrToggleCommentAtLine E lineNumber e2
             (addOrToggleCommentAtLine E lineNumber e1 s)) = commentWidgets s
     \<and> commentWidgets (addOrToggleCommentAtLine E lineNumber e1 s) = commentWidgets s
     \<and> filter (createsAt lineNumber)
          (backendCalls (addOrToggleCommentAtLine E lineNumber e2
             (addOrToggleCommentAtLine E lineNumber e1 s)))
        = filter (createsAt lineNumber) (backendCalls s)"
proof -
  let ?s1 = "addOrToggleCommentAtLine E lineNumber e1 s"
  have w1: "commentWidgets ?s1 = commentWidgets s" by (rule serializer_widgets(1))
  then have occ1: "occupied E lineNumber ?s1" using assms by (simp add: occupied_def)
  have c1: "filter (createsAt lineNumber) (backendCalls ?s1) = filter (createsAt lineNumber) (backendCalls s)"
    using serializer_no_create_on_occupied(1)[of E lineNumber s lineNumber e1] assms by simp
  have c2: "filter (createsAt lineNumber) (backendCalls (addOrToggleCommentAtLine E lineNumber e2 ?s1))
      = filter (createsAt lineNumber) (backendCalls ?s1)"
    using serializer_no_create_on_occupied(1)[of E lineNumber ?s1 lineNumber e2] occ1 by simp
  show ?thesis using w1 c1 c2 by (simp add: serializer_widgets(1))
qed

theorem addOrToggle_occupied_line_twice_witness:
  "occupied diffEnv 3 (initial\<lparr>commentWidgets := [zoneWidgetFor ''o1'' thread_t1]\<rparr>)
   \<and> commentWidgets (addOrToggleCommentAtLine diffEnv 3 None
        (addOrToggleCommentAtLine diffEnv 3 None
           (initial\<lparr>commentWidgets := [zoneWidgetFor ''o1'' thread_t1]\<rparr>)))
       = [zoneWidgetFor ''o1'' thread_t1]"
proof -
  have h: "occupied diffEnv 3 (initial\<lparr>commentWidgets := [zoneWidgetFor ''o1'' thread_t1]\<rparr>)"
    by (simp add: occupied_def diffEnv_def zoneWidgetFor_def thread_t1_def)
  show ?thesis using h addOrToggle_occupied_line_twice [OF h, of None None] by simp
qed

section \<open>Properties of the reconciler\<close>

text \<open>
  C3. The claim is that a batch is applied only once a pending fetch of comment infos
  has settled. On the code, evaluated here: \<^verbatim>\<open>beginCompute\<close> leaves the compute
  promise unset while its \<^verbatim>\<open>getComments\<close> is pending; a batch that arrives then is
  applied at once (the handler returns, the widget is created and the thread is pushed
  on the owner's info, the fetch still pending); when the fetch is fulfilled the infos
  are replaced, without the thread whose widget stays.
\<close>

theorem delta_applied_while_fetch_pending:
  "computePromise (run (opened @ [(diffEnv, BeginCompute)]) initial) = None
   \<and> pendingFetches (run (opened @ [(diffEnv, BeginCompute)]) initial) = [''file:///a.ts'']
   \<and> (\<exists>s'. onDidUpdateCommentThreads diffEnv (batch [thread_t1] [])
               (run (opened @ [(diffEnv, BeginCompute)]) initial) = Returned s'
          \<and> pendingFetches s' = [''file:///a.ts'']
          \<and> commentWidgets s' = [zoneWidgetFor ''o1'' thread_t1]
          \<and> commentInfos s' = [info_o1\<lparr>threads := [thread_t1]\<rparr>])
   \<and> commentInfos
        (run (opened @ [(diffEnv, BeginCompute),
                        (diffEnv, UpdateCommentThreads (batch [thread_t1] [])),
                        (diffEnv, CommentsFetched ''file:///a.ts'' [Some info_o1])]) initial)
       = [info_o1]
   \<and> commentWidgets
        (run (opened @ [(diffEnv, BeginCompute),
                        (diffEnv, UpdateCommentThreads (batch [thread_t1] [])),
                        (diffEnv, CommentsFetched ''file:///a.ts'' [Some info_o1])]) initial)
       = [zoneWidgetFor ''o1'' thread_t1]"
  by (simp add: run_simps zoneWidgetFor_def)

text \<open>
  C4. The claim is that the widget list never holds two widgets for one owner and one
  thread id that is not empty. On the code, evaluated here: with one diff editor created,
  an event that adds the thread \<^verbatim>\<open>t1\<close> of owner \<^verbatim>\<open>o1\<close> leaves one widget for
  it; with two diff editors created, the handler is subscribed twice, the same event is
  handled twice, and the widget list holds two widgets for \<^verbatim>\<open>o1\<close> and \<^verbatim>\<open>t1\<close>.
\<close>

theorem one_event_two_editors:
  "uniqueWidgets (commentWidgets (deliver 1 diffEnv (batch [thread_t1] []) (run opened initial)))
   \<and> widgetsFor ''o1'' ''t1''
        (commentWidgets (deliver 2 diffEnv (batch [thread_t1] []) (run (opened @ opened) initial)))
       = [zoneWidgetFor ''o1'' thread_t1, zoneWidgetFor ''o1'' thread_t1]
   \<and> \<not> uniqueWidgets
        (commentWidgets (deliver 2 diffEnv (batch [thread_t1] []) (run (opened @ opened) initial)))"
  by (simp add: run_simps uniqueWidgets_def widgetKey_def widgetsFor_def zoneWidgetFor_def
        numeral_2_eq_2)

text \<open>
  C6 (as amended). With an active resource, no compute promise and a known owner, for
  a thread on that resource whose thread id is not empty and that has no widget yet: the
  batch that adds it returns with exactly its widget for that owner and thread id, and
  the batch that removes it then returns with none, the widget list being the one
  before the two batches.
\<close>

theorem add_then_remove:
  assumes "editorURI E = Some uri" and "computePromise s = None"
    and "knownOwner eOwner s"
    and "onResource uri thread"
    and "threadId thread \<noteq> []"
    and "widgetsFor eOwner (threadId thread) (commentWidgets s) = []"
  shows "\<exists>s1 s2.
       onDidUpdateCommentThreads E
         \<lparr>ev_owner = eOwner, added = [thread], removed = [], changed = []\<rparr> s = Returned s1
     \<and> widgetsFor eOwner (threadId thread) (commentWidgets s1) = [zoneWidgetFor eOwner thread]
     \<and> onDidUpdateCommentThreads E
         \<lparr>ev_owner = eOwner, added = [], removed = [thread], changed = []\<rparr> s1 = Returned s2
     \<and> widgetsFor eOwner (threadId thread) (commentWidgets s2) = []
     \<and> commentWidgets s2 = commentWidgets s"
proof -
  let ?a = "\<lparr>ev_owner = eOwner, added = [thread], removed = [], changed = []\<rparr>"
  let ?b = "\<lparr>ev_owner = eOwner, added = [], removed = [thread], changed = []\<rparr>"
  let ?w = "zoneWidgetFor eOwner thread"
  from handler_returns[OF assms(1,2), of ?a] assms(3,4) obtain s1 where
    s1: "onDidUpdateCommentThreads E ?a s = Returned s1"
        "commentWidgets s1 = commentWidgets s @ [?w]"
        "knownOwner eOwner s1" "computePromise s1 = None"
    by auto
  from handler_returns[OF assms(1) s1(4), of ?b] s1(3) assms(4) obtain s2 where
    s2: "onDidUpdateCommentThreads E ?b s1 = Returned s2"
        "commentWidgets s2 = commentWidgets (removeThread eOwner thread s1)"
    by auto
  have w1: "widgetsFor eOwner (threadId thread) (commentWidgets s1) = [?w]"
    using s1(2) assms(6) by (simp add: widgetsFor_append) (simp add: widgetsFor_def zoneWidgetFor_def)
  have notin: "?w \<notin> set (commentWidgets s)"
  proof
    assume "?w \<in> set (commentWidgets s)"
    then have "?w \<in> set (widgetsFor eOwner (threadId thread) (commentWidgets s))"
      by (simp add: widgetsFor_def zoneWidgetFor_def)
    then show False using assms(6) by simp
  qed
  have "filter (matchesRemoved eOwner thread) (commentWidgets s1) = [?w]"
    using w1 assms(5) by (simp add: filter_matchesRemoved)
  then have "commentWidgets (removeThread eOwner thread s1) = remove1 ?w (commentWidgets s @ [?w])"
    using s1(2) by (simp add: removeThread_widgets)
  then have same: "commentWidgets s2 = commentWidgets s"
    using s2(2) notin by (simp add: remove1_append)
  show ?thesis using s1(1) w1 s2(1) same assms(6) by simp
qed

theorem add_then_remove_witness:
  "editorURI diffEnv = Some ''file:///a.ts''
   \<and> knownOwner ''o1'' (run opened initial)
   \<and> (\<exists>s1 s2.
       onDidUpdateCommentThreads diffEnv
         \<lparr>ev_owner = ''o1'', added = [thread_t1], removed = [], changed = []\<rparr>
         (run opened initial) = Returned s1
     \<and> widgetsFor ''o1'' (threadId thread_t1) (commentWidgets s1) = [zoneWidgetFor ''o1'' thread_t1]
     \<and> onDidUpdateCommentThreads diffEnv
         \<lparr>ev_owner = ''o1'', added = [], removed = [thread_t1], changed = []\<rparr> s1 = Returned s2
     \<and> widgetsFor ''o1'' (threadId thread_t1) (commentWidgets s2) = []
     \<and> commentWidgets s2 = commentWidgets (run opened initial))"
proof -
  have h1: "editorURI diffEnv = Some ''file:///a.ts''"
    by (simp add: diffEnv_def editorURI_def editor_def)
  have h2: "computePromise (run opened initial) = None" by (simp add: run_simps)
  have h3: "knownOwner ''o1'' (run opened initial)" by (simp add: knownOwner_def run_simps)
  have h4: "onResource ''file:///a.ts'' thread_t1" by (simp add: onResource_def thread_t1_def)
  have h5: "threadId thread_t1 \<noteq> []" by (simp add: thread_t1_def)
  have h6: "widgetsFor ''o1'' (threadId thread_t1) (commentWidgets (run opened initial)) = []"
    by (simp add: widgetsFor_def run_simps)
  show ?thesis using h1 h3 add_then_remove [OF h1 h2 h3 h4 h5 h6] by simp
qed

text \<open>
  C6 as stated fails for a thread with the empty thread id: the removal never matches
  its widget, which stays.
\<close>

theorem add_then_remove_counterexample:
  "widgetsFor ''o1'' (threadId thread_unsaved)
     (commentWidgets
        (run (opened @ [(diffEnv, UpdateCommentThreads (batch [thread_unsaved] [])),
                        (diffEnv, UpdateCommentThreads (batch [] [thread_unsaved]))])
           initial)) \<noteq> []"
  by (simp add: widgetsFor_def run_simps)

text \<open>
  C7 (as amended). With an active resource, no compute promise and a known owner, in
  a state with at most one widget for the owner and a thread id that is not empty: a
  batch that, on the active resource, removes that thread id and adds exactly one thread
  with it returns with exactly one widget for the owner and that thread id, the widget
  of the thread added (the removals being done before the additions).
\<close>

theorem replace_in_one_batch:
  assumes "editorURI E = Some uri" and "computePromise s = None"
    and "knownOwner (ev_owner e) s"
    and "tid \<noteq> []"
    and "length (widgetsFor (ev_owner e) tid (commentWidgets s)) \<le> 1"
    and "filter (\<lambda>t. threadId t = tid) (filter (onResource uri) (removed e)) \<noteq> []"
    and "filter (\<lambda>t. threadId t = tid) (filter (onResource uri) (added e)) = [thread]"
  shows "\<exists>s'. onDidUpdateCommentThreads E e s = Returned s'
           \<and> widgetsFor (ev_owner e) tid (commentWidgets s') = [zoneWidgetFor (ev_owner e) thread]"
proof -
  let ?o = "ev_owner e"
  let ?r = "fold (removeThread ?o) (filter (onResource uri) (removed e)) s"
  from handler_returns[OF assms(1-3)] obtain s' where
    s': "onDidUpdateCommentThreads E e s = Returned s'"
        "commentWidgets s' = commentWidgets ?r
            @ map (zoneWidgetFor ?o) (filter (onResource uri) (added e))"
    by blast
  define k where "k = length (filter (\<lambda>t. threadId t = tid) (filter (onResource uri) (removed e)))"
  have "k \<noteq> 0" using assms(6) unfolding k_def by (simp del: filter_filter)
  moreover have "length (widgetsFor ?o tid (commentWidgets ?r))
       = length (widgetsFor ?o tid (commentWidgets s)) - k"
    unfolding k_def
    using assms(4) count_removed_fold[of ?o tid ?o "filter (onResource uri) (removed e)" s]
    by (simp del: filter_filter)
  ultimately have "length (widgetsFor ?o tid (commentWidgets ?r)) = 0"
    using assms(5) by arith
  then have "widgetsFor ?o tid (commentWidgets ?r) = []" by simp
  then have "widgetsFor ?o tid (commentWidgets s') = [zoneWidgetFor ?o thread]"
    using s'(2) assms(7) by (simp add: widgetsFor_append widgetsFor_zoneWidgets del: filter_filter)
  then show ?thesis using s'(1) by blast
qed

theorem replace_in_one_batch_witness:
  "length (widgetsFor ''o1'' ''t1''
      (commentWidgets (run (opened @ [(diffEnv, UpdateCommentThreads (batch [thread_t1] []))]) initial))) = 1
   \<and> (\<exists>s'. onDidUpdateCommentThreads diffEnv (batch [thread_t1] [thread_t1])
              (run (opened @ [(diffEnv, UpdateCommentThreads (batch [thread_t1] []))]) initial)
            = Returned s'
          \<and> widgetsFor ''o1'' ''t1'' (commentWidgets s') = [zoneWidgetFor ''o1'' thread_t1])"
proof -
  let ?s = "run (opened @ [(diffEnv, UpdateCommentThreads (batch [thread_t1] []))]) initial"
  let ?e = "batch [thread_t1] [thread_t1]"
  have h1: "editorURI diffEnv = Some ''file:///a.ts''"
    by (simp add: diffEnv_def editorURI_def editor_def)
  have h2: "computePromise ?s = None" by (simp add: run_simps)
  have h3: "knownOwner (ev_owner ?e) ?s" by (simp add: knownOwner_def run_simps)
  have h4: "''t1'' \<noteq> []" by simp
  have w: "length (widgetsFor ''o1'' ''t1'' (commentWidgets ?s)) = 1"
    by (simp add: widgetsFor_def run_simps)
  then have h5: "length (widgetsFor (ev_owner ?e) ''t1'' (commentWidgets ?s)) \<le> 1"
    by (simp add: batch_def)
  have h6: "filter (\<lambda>t. threadId t = ''t1'') (filter (onResource ''file:///a.ts'') (removed ?e)) \<noteq> []"
    by (simp add: batch_def thread_t1_def onResource_def)
  have h7: "filter (\<lambda>t. threadId t = ''t1'') (filter (onResource ''file:///a.ts'') (added ?e)) = [thread_t1]"
    by (simp add: batch_def thread_t1_def onResource_def)
  have "ev_owner ?e = ''o1''" by (simp add: batch_def)
  then show ?thesis using w replace_in_one_batch [OF h1 h2 h3 h4 h5 h6 h7] by simp
qed

text \<open>
  C7 as stated fails for the empty thread id: the widget of the earlier addition is not
  removed, and the batch leaves two.
\<close>

theorem replace_in_one_batch_counterexample:
  "length (widgetsFor ''o1'' (threadId thread_unsaved)
     (commentWidgets
        (run (opened @ [(diffEnv, UpdateCommentThreads (batch [thread_unsaved] [])),
                        (diffEnv, UpdateCommentThreads (batch [thread_unsaved] [thread_unsaved]))])
           initial))) = 2"
  by (simp add: widgetsFor_def run_simps)






section \<open>Without a diff editor\<close>

text \<open>
  C10. When there is no current editor, or the current editor is not a diff editor, the
  editor getter returns undefined, and \<^verbatim>\<open>beginCompute\<close>, \<^verbatim>\<open>setComments\<close>,
  \<^verbatim>\<open>displayCommentThread\<close> and \<^verbatim>\<open>addCommentAtLine2\<close> return the state they got:
  no field of the controller changes and no call to the comment service is added; the
  handler of thread deltas returns the state it got as well.
\<close>

theorem no_diff_editor_no_effect:
  assumes "currentEditor E = None \<or> currentEditor E = Some OtherEditor"
  shows "editor E = None
     \<and> beginCompute E s = s
     \<and> setComments E infos s = s
     \<and> displayCommentThread E eOwner thread pendingComment s = s
     \<and> addCommentAtLine2 E lineNumber ownerId s = s
     \<and> onDidUpdateCommentThreads E e s = Returned s"
proof -
  have ed: "editor E = None" using assms by (auto simp: editor_def)
  then have uri: "editorURI E = None" by (simp add: editorURI_def)
  show ?thesis using ed uri
    by (simp add: beginCompute_def setComments_def displayCommentThread_def
          addCommentAtLine2.simps onDidUpdateCommentThreads_def)
qed

theorem no_diff_editor_no_effect_witness:
  "beginCompute noEditorEnv initial = initial
   \<and> setComments plainEditorEnv [info_o1] initial = initial
   \<and> displayCommentThread noEditorEnv ''o1'' thread_t1 None initial = initial
   \<and> displayCommentThread plainEditorEnv ''o1'' thread_t1 None initial = initial
   \<and> addCommentAtLine2 plainEditorEnv 7 ''o1'' initial = initial
   \<and> onDidUpdateCommentThreads noEditorEnv (batch [thread_t1] []) initial = Returned initial"
proof -
  have h1: "currentEditor noEditorEnv = None \<or> currentEditor noEditorEnv = Some OtherEditor"
    by (simp add: noEditorEnv_def)
  have h2: "currentEditor plainEditorEnv = None \<or> currentEditor plainEditorEnv = Some OtherEditor"
    by (simp add: plainEditorEnv_def)
  show ?thesis
    using no_diff_editor_no_effect [OF h1, of initial "[]" "''o1''" thread_t1 None 7 "''o1''" "batch [thread_t1] []"]
      no_diff_editor_no_effect [OF h2, of initial "[info_o1]" "''o1''" thread_t1 None 7 "''o1''" "batch [thread_t1] []"]
    by simp
qed

end
